theory Spec2Isabelle
  imports Main
begin

section \<open>Text: Python strings over 8-bit code points\<close>

text \<open>
  The script \<^verbatim>\<open>push.py\<close> reads a text file, so its strings are sequences of code
  points. They are modelled as \<^typ>\<open>string\<close>; a \<^typ>\<open>char\<close> stands for the code
  point of the same number (U+0000 to U+00FF). \<open>is_space\<close> is the whitespace that
  \<^verbatim>\<open>str.strip()\<close> removes on that range, \<open>lower\<close> is \<^verbatim>\<open>str.lower()\<close> on it.
\<close>

definition is_space :: "char \<Rightarrow> bool" where
  "is_space c =
     (c \<in> {CHR 0x09, CHR 0x0A, CHR 0x0B, CHR 0x0C, CHR 0x0D, CHR 0x1C, CHR 0x1D,
            CHR 0x1E, CHR 0x1F, CHR 0x20, CHR 0x85, CHR 0xA0})"

definition strip :: "string \<Rightarrow> string" where
  "strip s = rev (dropWhile is_space (rev (dropWhile is_space s)))"

definition startswith :: "string \<Rightarrow> string \<Rightarrow> bool" where
  "startswith s p = (take (length p) s = p)"

definition endswith :: "string \<Rightarrow> string \<Rightarrow> bool" where
  "endswith s p = (length p \<le> length s \<and> drop (length s - length p) s = p)"

text \<open>\<^verbatim>\<open>s[1:-1]\<close>: empty for a string of fewer than two characters.\<close>

definition slice_1_m1 :: "string \<Rightarrow> string" where
  "slice_1_m1 s = butlast (tl s)"

text \<open>\<^verbatim>\<open>sub in s\<close> for strings.\<close>

fun str_contains :: "string \<Rightarrow> string \<Rightarrow> bool" where
  "str_contains sub [] = (sub = [])"
| "str_contains sub (c # cs) = (startswith (c # cs) sub \<or> str_contains sub cs)"

definition lower_char :: "char \<Rightarrow> char" where
  "lower_char c =
     (let n = (of_char c :: nat)
      in if (65 \<le> n \<and> n \<le> 90) \<or> (192 \<le> n \<and> n \<le> 222 \<and> n \<noteq> 215)
         then char_of (n + 32) else c)"

definition lower :: "string \<Rightarrow> string" where
  "lower s = map lower_char s"

section \<open>The dictionary\<close>

text \<open>
  A Python \<^verbatim>\<open>dict\<close> keeps its keys in insertion order, and an assignment to a key it
  already has replaces the value where the key stands. It is an association list with
  distinct keys; \<open>dict_setitem\<close> is \<^verbatim>\<open>d[key] = value\<close>.
\<close>

type_synonym env_dict = "(string \<times> string) list"

fun dict_setitem :: "env_dict \<Rightarrow> string \<Rightarrow> string \<Rightarrow> env_dict" where
  "dict_setitem [] key val = [(key, val)]"
| "dict_setitem ((k, v) # d) key val =
     (if k = key then (k, val) # d else (k, v) # dict_setitem d key val)"

section \<open>What the program prints\<close>

text \<open>
  Each constructor is one message of the script, holding the values interpolated in it.
  \<open>Failed_to_push\<close> and \<open>Failed_to_connect\<close> stand for the pair the script always emits
  together: the \<^verbatim>\<open>logging.error\<close> record and the printed line of the same text.
  \<open>Pushed\<close> stands for the \<^verbatim>\<open>logging.info\<close> record of the success and its printed line.
  \<open>Logged_pushed\<close> and \<open>Logged_failure\<close> are those log records alone, when the printed
  line could not be written. The informational log records that depend on nothing but
  the arguments are left out.
\<close>

datatype event =
    File_not_found
  | Invalid_line nat string
  | No_variables
  | Pushed string
  | Failed_to_push string string
  | Logged_pushed string
  | Logged_failure string string
  | Completed string nat
  | Failed_to_connect string string

section \<open>The parser\<close>

text \<open>
  \<open>unquote\<close> is the \<^verbatim>\<open>if\<close>/\<^verbatim>\<open>elif\<close> on the value in \<^verbatim>\<open>parse_env_file\<close>.
\<close>

definition unquote :: "string \<Rightarrow> string" where
  "unquote v =
     (if startswith v [CHR 0x22] \<and> endswith v [CHR 0x22] then slice_1_m1 v
      else if startswith v [CHR 0x27] \<and> endswith v [CHR 0x27] then slice_1_m1 v
      else v)"

text \<open>\<^verbatim>\<open>line.split("=", 1)\<close> on a line that has an \<^verbatim>\<open>=\<close>.\<close>

definition split_eq :: "string \<Rightarrow> string \<times> string" where
  "split_eq line =
     (takeWhile (\<lambda>c. c \<noteq> CHR ''='') line, tl (dropWhile (\<lambda>c. c \<noteq> CHR ''='') line))"

text \<open>
  The loop of \<^verbatim>\<open>parse_env_file\<close> over \<^verbatim>\<open>enumerate(f, 1)\<close>: the lines as the file
  object yields them (each with its line end), the number of the next line, the
  dictionary and the warnings printed so far.
\<close>

fun parse_lines ::
  "nat \<Rightarrow> string list \<Rightarrow> env_dict \<Rightarrow> event list \<Rightarrow> env_dict \<times> event list" where
  "parse_lines line_num [] env_vars out = (env_vars, out)"
| "parse_lines line_num (raw # rest) env_vars out =
     (let line = strip raw
      in if line = [] \<or> startswith line ''#''
         then parse_lines (Suc line_num) rest env_vars out
         else if CHR ''='' \<in> set line
         then (let (key, val) = split_eq line;
                   key = strip key;
                   val = unquote (strip val)
               in parse_lines (Suc line_num) rest (dict_setitem env_vars key val) out)
         else parse_lines (Suc line_num) rest env_vars (out @ [Invalid_line line_num line]))"

text \<open>
  \<^verbatim>\<open>parse_env_file\<close>: the file at the path is absent (\<open>None\<close>) or holds lines. An
  absent file ends the process with \<^verbatim>\<open>sys.exit(1)\<close>: the result is \<open>Inl\<close> of the
  exit code and what was printed. Otherwise the dictionary and the warnings.
\<close>

definition parse_env_file ::
  "string list option \<Rightarrow> (nat \<times> event list) + (env_dict \<times> event list)" where
  "parse_env_file env_path =
     (case env_path of
        None \<Rightarrow> Inl (1, [File_not_found])
      | Some lines \<Rightarrow> Inr (parse_lines 1 lines [] []))"

text \<open>
  The key and value a line contributes, if it contributes one: the branch of the loop
  body that reaches \<^verbatim>\<open>env_vars[key] = value\<close>. \<open>entries\<close> are those of a whole
  file, in file order, and \<open>set_all\<close> assigns them in turn.
\<close>

definition line_entry :: "string \<Rightarrow> (string \<times> string) option" where
  "line_entry raw =
     (let line = strip raw
      in if line = [] \<or> startswith line ''#'' then None
         else if CHR ''='' \<in> set line
         then Some (strip (fst (split_eq line)), unquote (strip (snd (split_eq line))))
         else None)"

definition entries :: "string list \<Rightarrow> (string \<times> string) list" where
  "entries lines = List.map_filter line_entry lines"

definition set_all :: "env_dict \<Rightarrow> (string \<times> string) list \<Rightarrow> env_dict" where
  "set_all d es = fold (\<lambda>e d. dict_setitem d (fst e) (snd e)) es d"

text \<open>The elements of a list in the order in which each first occurs.\<close>

definition first_occurrences :: "'a list \<Rightarrow> 'a list" where
  "first_occurrences ks = rev (remdups (rev ks))"

text \<open>
  The parser as the specification words it, line by line on the line as it stands in the
  file: a blank line (nothing but whitespace) and a line that starts with the comment
  marker (after leading whitespace) are skipped; a remaining line with an \<^verbatim>\<open>=\<close> is
  split at the first \<^verbatim>\<open>=\<close>, key and value are trimmed, and a matching pair of quotes
  around the value, which takes two characters, is removed.
\<close>

definition spec_unquote :: "string \<Rightarrow> string" where
  "spec_unquote v =
     (if 2 \<le> length v \<and> hd v = last v \<and> (hd v = CHR 0x22 \<or> hd v = CHR 0x27)
      then butlast (tl v) else v)"

definition spec_blank :: "string \<Rightarrow> bool" where
  "spec_blank raw = list_all is_space raw"

definition spec_comment :: "string \<Rightarrow> bool" where
  "spec_comment raw = startswith (dropWhile is_space raw) ''#''"

definition spec_key_value :: "string \<Rightarrow> string \<times> string" where
  "spec_key_value raw =
     (strip (takeWhile (\<lambda>c. c \<noteq> CHR ''='') raw),
      strip (tl (dropWhile (\<lambda>c. c \<noteq> CHR ''='') raw)))"

definition spec_entry :: "string \<Rightarrow> (string \<times> string) option" where
  "spec_entry raw =
     (if spec_blank raw \<or> spec_comment raw then None
      else if CHR ''='' \<in> set raw
      then Some (fst (spec_key_value raw), spec_unquote (snd (spec_key_value raw)))
      else None)"

definition spec_parse :: "string list \<Rightarrow> env_dict" where
  "spec_parse lines = set_all [] (List.map_filter spec_entry lines)"

text \<open>Trimming on the right alone, for the proofs about \<open>strip\<close>.\<close>

definition rstrip :: "string \<Rightarrow> string" where
  "rstrip s = rev (dropWhile is_space (rev s))"

section \<open>The cloud SDK\<close>

text \<open>
  The script talks to \<^verbatim>\<open>boto3\<close> only through method calls with keyword arguments.
  A call is the method's name and its keyword arguments in the order written; a tag list
  is the list of its \<^verbatim>\<open>Key\<close>/\<^verbatim>\<open>Value\<close> pairs. The SDK is a state machine the script
  cannot see into: a call returns or raises an exception (its class and its message),
  and moves the SDK and the remote store to a new state. What a returning call returns
  is never read by the script apart from log lines.
\<close>

datatype arg = Str string | Flag bool | Tags "(string \<times> string) list"

datatype sdk_call = Call (op_name: string) (kwargs: "(string \<times> arg) list")

datatype exn = Exn (exn_class: string) (exn_msg: string)

datatype response = Returned | Raised exn

type_synonym 'st client = "'st \<Rightarrow> sdk_call \<Rightarrow> response \<times> 'st"

text \<open>
  The head of \<^verbatim>\<open>push_to_ssm\<close> and \<^verbatim>\<open>push_to_secrets_manager\<close>, the same in both:
  \<^verbatim>\<open>boto3.Session(profile_name=...)\<close>, \<^verbatim>\<open>session.get_credentials()\<close> with the logging
  of the credentials, \<^verbatim>\<open>session.client(service)\<close>. The first exception ends it.
\<close>

definition open_session ::
  "'st client \<Rightarrow> 'st \<Rightarrow> string \<Rightarrow> string \<Rightarrow> exn option \<times> 'st \<times> sdk_call list" where
  "open_session cl s profile_name service =
     (let session = Call ''Session'' [(''profile_name'', Str profile_name)];
          credentials = Call ''get_credentials'' [];
          client = Call ''client'' [(''service_name'', Str service)]
      in case cl s session of
           (Raised e, s1) \<Rightarrow> (Some e, s1, [session])
         | (Returned, s1) \<Rightarrow>
             (case cl s1 credentials of
                (Raised e, s2) \<Rightarrow> (Some e, s2, [session, credentials])
              | (Returned, s2) \<Rightarrow>
                  (case cl s2 client of
                     (Raised e, s3) \<Rightarrow> (Some e, s3, [session, credentials, client])
                   | (Returned, s3) \<Rightarrow> (None, s3, [session, credentials, client]))))"

text \<open>
  Standard output. The two report lines of the loop body start with a check mark (U+2713)
  and a ballot cross (U+2717); \<^verbatim>\<open>print\<close> raises \<^verbatim>\<open>UnicodeEncodeError\<close> on a standard
  output whose encoding lacks the character. For each mark, \<open>None\<close> says that it can be
  written, \<open>Some m\<close> that printing it raises with message \<open>m\<close>. Every other character the
  script prints is taken to be encodable.
\<close>

record stdout =
  check_mark_error :: "string option"
  cross_mark_error :: "string option"

text \<open>
  The end of the loop body, from the report it is about to make. After a success the
  body logs it and prints the check-mark line inside the \<^verbatim>\<open>try\<close>; if that print raises,
  the handler runs as for any failure. The handler logs the failure and prints the
  cross line; nothing catches an exception of that print inside the loop. The result is
  what was emitted and, when the handler's print raised, the message of its exception.
\<close>

definition emit :: "stdout \<Rightarrow> event \<Rightarrow> event list \<times> string option" where
  "emit std ev =
     (case ev of
        Pushed n \<Rightarrow>
          (case check_mark_error std of
             None \<Rightarrow> ([Pushed n], None)
           | Some m1 \<Rightarrow>
               (case cross_mark_error std of
                  None \<Rightarrow> ([Logged_pushed n, Failed_to_push n m1], None)
                | Some m2 \<Rightarrow> ([Logged_pushed n, Logged_failure n m1], Some m2)))
      | Failed_to_push n m \<Rightarrow>
          (case cross_mark_error std of
             None \<Rightarrow> ([Failed_to_push n m], None)
           | Some m2 \<Rightarrow> ([Logged_failure n m], Some m2))
      | _ \<Rightarrow> ([ev], None))"

text \<open>
  A \<^verbatim>\<open>for key, value in env_vars.items()\<close> loop. The body turns the state and one item
  into the new state, the calls it made and the report it is about to make; \<open>emit\<close> makes
  the report. An exception that leaves the body ends the loop: the result then holds its
  message, and the items after it are not touched.
\<close>

fun for_items ::
  "('st \<Rightarrow> string \<times> string \<Rightarrow> 'st \<times> sdk_call list \<times> event) \<Rightarrow> stdout \<Rightarrow> 'st \<Rightarrow> env_dict
     \<Rightarrow> 'st \<times> sdk_call list \<times> event list \<times> string option" where
  "for_items body std s [] = (s, [], [], None)"
| "for_items body std s (kv # rest) =
     (case body s kv of
        (s1, calls, ev) \<Rightarrow>
          (case emit std ev of
             (evs, Some m) \<Rightarrow> (s1, calls, evs, Some m)
           | (evs, None) \<Rightarrow>
               (case for_items body std s1 rest of
                  (s2, calls', evs', r) \<Rightarrow> (s2, calls @ calls', evs @ evs', r))))"

definition tags_of :: "string \<Rightarrow> string \<Rightarrow> (string \<times> string) list" where
  "tags_of profile_name tag =
     [(''Source'', ''.env''), (''Profile'', profile_name), (''Tag'', tag)]"

section \<open>Parameter Store\<close>

definition param_type_of :: "string \<Rightarrow> string" where
  "param_type_of key =
     (if list_ex (\<lambda>secret. str_contains secret (lower key))
           [''password'', ''secret'', ''key'', ''token'']
      then ''SecureString'' else ''String'')"

definition parameter_name_of :: "string \<Rightarrow> string \<Rightarrow> string" where
  "parameter_name_of tag key = ''/'' @ tag @ ''/'' @ key"

definition get_parameter :: "string \<Rightarrow> sdk_call" where
  "get_parameter parameter_name = Call ''get_parameter'' [(''Name'', Str parameter_name)]"

definition put_parameter_update :: "string \<Rightarrow> string \<Rightarrow> string \<Rightarrow> sdk_call" where
  "put_parameter_update parameter_name val param_type =
     Call ''put_parameter''
       [(''Name'', Str parameter_name), (''Value'', Str val), (''Type'', Str param_type),
        (''Overwrite'', Flag True)]"

definition put_parameter_create ::
  "string \<Rightarrow> string \<Rightarrow> string \<Rightarrow> (string \<times> string) list \<Rightarrow> sdk_call" where
  "put_parameter_create parameter_name val param_type tags =
     Call ''put_parameter''
       [(''Name'', Str parameter_name), (''Value'', Str val), (''Type'', Str param_type),
        (''Tags'', Tags tags)]"

text \<open>
  The body of the loop of \<^verbatim>\<open>push_to_ssm\<close> up to its report: the calls it makes and the
  report it is about to make (\<open>emit\<close> makes it). The inner \<^verbatim>\<open>try\<close> catches
  \<^verbatim>\<open>ParameterNotFound\<close> from the read alone; every other exception, of the read or of
  the write, reaches the outer \<^verbatim>\<open>except Exception\<close> of the body.
\<close>

definition push_item_ssm ::
  "'st client \<Rightarrow> string \<Rightarrow> string \<Rightarrow> 'st \<Rightarrow> string \<times> string \<Rightarrow> 'st \<times> sdk_call list \<times> event" where
  "push_item_ssm cl profile_name tag s kv =
     (let key = fst kv; val = snd kv;
          parameter_name = parameter_name_of tag key;
          check = get_parameter parameter_name
      in case cl s check of
           (r, s1) \<Rightarrow>
             (case (case r of
                      Returned \<Rightarrow> Inr True
                    | Raised e \<Rightarrow>
                        if exn_class e = ''ParameterNotFound'' then Inr False else Inl e) of
                Inl e \<Rightarrow> (s1, [check], Failed_to_push parameter_name (exn_msg e))
              | Inr parameter_exists \<Rightarrow>
                  (let param_type = param_type_of key;
                       tags = tags_of profile_name tag;
                       put = (if parameter_exists
                              then put_parameter_update parameter_name val param_type
                              else put_parameter_create parameter_name val param_type tags)
                   in case cl s1 put of
                        (Returned, s2) \<Rightarrow> (s2, [check, put], Pushed parameter_name)
                      | (Raised e, s2) \<Rightarrow>
                          (s2, [check, put], Failed_to_push parameter_name (exn_msg e)))))"

text \<open>
  \<^verbatim>\<open>push_to_ssm\<close>: \<open>Some 1\<close> is \<^verbatim>\<open>sys.exit(1)\<close> in the outer handler, \<open>None\<close> is
  the function returning. The outer \<^verbatim>\<open>try\<close> spans the opening of the session and the
  loop, so its handler also takes an exception that leaves the loop.
\<close>

definition push_to_ssm ::
  "'st client \<Rightarrow> stdout \<Rightarrow> 'st \<Rightarrow> env_dict \<Rightarrow> string \<Rightarrow> string
     \<Rightarrow> nat option \<times> sdk_call list \<times> event list" where
  "push_to_ssm cl std s env_vars profile_name tag =
     (case open_session cl s profile_name ''ssm'' of
        (Some e, s1, calls) \<Rightarrow> (Some 1, calls, [Failed_to_connect ''SSM'' (exn_msg e)])
      | (None, s1, calls) \<Rightarrow>
          (case for_items (push_item_ssm cl profile_name tag) std s1 env_vars of
             (s2, calls', evs, Some m) \<Rightarrow>
               (Some 1, calls @ calls', evs @ [Failed_to_connect ''SSM'' m])
           | (s2, calls', evs, None) \<Rightarrow>
               (None, calls @ calls', evs @ [Completed ''SSM'' (length env_vars)])))"

section \<open>Secrets Manager\<close>

definition secret_name_of :: "string \<Rightarrow> string \<Rightarrow> string" where
  "secret_name_of tag key = tag @ ''/'' @ key"

text \<open>The f-string \<^verbatim>\<open>f'{{"{key}": "{value}"}}'\<close>.\<close>

definition secret_string_of :: "string \<Rightarrow> string \<Rightarrow> string" where
  "secret_string_of key val =
     [CHR ''{'', CHR 0x22] @ key @ [CHR 0x22, CHR '':'', CHR '' '', CHR 0x22] @ val
       @ [CHR 0x22, CHR ''}'']"

definition describe_secret :: "string \<Rightarrow> sdk_call" where
  "describe_secret secret_name = Call ''describe_secret'' [(''SecretId'', Str secret_name)]"

definition update_secret :: "string \<Rightarrow> string \<Rightarrow> sdk_call" where
  "update_secret secret_name secret_string =
     Call ''update_secret'' [(''SecretId'', Str secret_name), (''SecretString'', Str secret_string)]"

definition create_secret :: "string \<Rightarrow> string \<Rightarrow> (string \<times> string) list \<Rightarrow> sdk_call" where
  "create_secret secret_name secret_string tags =
     Call ''create_secret''
       [(''Name'', Str secret_name), (''SecretString'', Str secret_string), (''Tags'', Tags tags)]"

definition push_item_secrets_manager ::
  "'st client \<Rightarrow> string \<Rightarrow> string \<Rightarrow> 'st \<Rightarrow> string \<times> string \<Rightarrow> 'st \<times> sdk_call list \<times> event" where
  "push_item_secrets_manager cl profile_name tag s kv =
     (let key = fst kv; val = snd kv;
          secret_name = secret_name_of tag key;
          check = describe_secret secret_name
      in case cl s check of
           (r, s1) \<Rightarrow>
             (case (case r of
                      Returned \<Rightarrow> Inr True
                    | Raised e \<Rightarrow>
                        if exn_class e = ''ResourceNotFoundException'' then Inr False
                        else Inl e) of
                Inl e \<Rightarrow> (s1, [check], Failed_to_push secret_name (exn_msg e))
              | Inr secret_exists \<Rightarrow>
                  (let secret_string = secret_string_of key val;
                       tags = tags_of profile_name tag;
                       write = (if secret_exists
                                then update_secret secret_name secret_string
                                else create_secret secret_name secret_string tags)
                   in case cl s1 write of
                        (Returned, s2) \<Rightarrow> (s2, [check, write], Pushed secret_name)
                      | (Raised e, s2) \<Rightarrow>
                          (s2, [check, write], Failed_to_push secret_name (exn_msg e)))))"

definition push_to_secrets_manager ::
  "'st client \<Rightarrow> stdout \<Rightarrow> 'st \<Rightarrow> env_dict \<Rightarrow> string \<Rightarrow> string
     \<Rightarrow> nat option \<times> sdk_call list \<times> event list" where
  "push_to_secrets_manager cl std s env_vars profile_name tag =
     (case open_session cl s profile_name ''secretsmanager'' of
        (Some e, s1, calls) \<Rightarrow>
          (Some 1, calls, [Failed_to_connect ''Secrets Manager'' (exn_msg e)])
      | (None, s1, calls) \<Rightarrow>
          (case for_items (push_item_secrets_manager cl profile_name tag) std s1 env_vars of
             (s2, calls', evs, Some m) \<Rightarrow>
               (Some 1, calls @ calls', evs @ [Failed_to_connect ''Secrets Manager'' m])
           | (s2, calls', evs, None) \<Rightarrow>
               (None, calls @ calls',
                evs @ [Completed ''Secrets Manager'' (length env_vars)])))"

section \<open>The program\<close>

text \<open>
  The arguments as \<^verbatim>\<open>argparse\<close> delivers them; \<^verbatim>\<open>--target\<close> has two choices. The file
  system gives, for a path, the lines of the file there, if there is one; the standard
  output is as above. \<open>main\<close>
  returns the exit code of the process (0 when \<^verbatim>\<open>main()\<close> returns), the SDK calls made
  and the messages printed, in order.
\<close>

datatype target = Ssm | Secretsmanager

record args =
  args_profile :: string
  args_tag :: string
  args_target :: target
  args_env_file :: string

definition main ::
  "args \<Rightarrow> (string \<Rightarrow> string list option) \<Rightarrow> stdout \<Rightarrow> 'st client \<Rightarrow> 'st
     \<Rightarrow> nat \<times> sdk_call list \<times> event list" where
  "main a fs std cl s =
     (case parse_env_file (fs (args_env_file a)) of
        Inl (code, out) \<Rightarrow> (code, [], out)
      | Inr (env_vars, out) \<Rightarrow>
          if env_vars = [] then (1, [], out @ [No_variables])
          else (case (case args_target a of
                        Ssm \<Rightarrow> push_to_ssm cl std s env_vars (args_profile a) (args_tag a)
                      | Secretsmanager \<Rightarrow>
                          push_to_secrets_manager cl std s env_vars (args_profile a)
                            (args_tag a)) of
                  (Some code, calls, evs) \<Rightarrow> (code, calls, out @ evs)
                | (None, calls, evs) \<Rightarrow> (0, calls, out @ evs)))"

section \<open>Reading the calls and the messages\<close>

text \<open>
  What the statements below read off a run: a keyword argument of a call, the calls and
  the report of one loop body, the read that checks whether an item exists, and the names
  and the loop body each target uses.
\<close>

definition kwarg :: "sdk_call \<Rightarrow> string \<Rightarrow> arg option" where
  "kwarg c name = map_of (kwargs c) name"

definition calls_of :: "'st \<times> sdk_call list \<times> event \<Rightarrow> sdk_call list" where
  "calls_of r = fst (snd r)"

definition event_of :: "'st \<times> sdk_call list \<times> event \<Rightarrow> event" where
  "event_of r = snd (snd r)"

definition service_of :: "target \<Rightarrow> string" where
  "service_of t = (case t of Ssm \<Rightarrow> ''ssm'' | Secretsmanager \<Rightarrow> ''secretsmanager'')"

definition label_of :: "target \<Rightarrow> string" where
  "label_of t = (case t of Ssm \<Rightarrow> ''SSM'' | Secretsmanager \<Rightarrow> ''Secrets Manager'')"

definition item_body ::
  "'st client \<Rightarrow> target \<Rightarrow> string \<Rightarrow> string \<Rightarrow> 'st \<Rightarrow> string \<times> string
     \<Rightarrow> 'st \<times> sdk_call list \<times> event" where
  "item_body cl t profile_name tag =
     (case t of
        Ssm \<Rightarrow> push_item_ssm cl profile_name tag
      | Secretsmanager \<Rightarrow> push_item_secrets_manager cl profile_name tag)"

text \<open>
  The loop body run on every item in turn, each from the state the one before it left:
  what a loop that nothing interrupts does.
\<close>

fun item_runs ::
  "('st \<Rightarrow> string \<times> string \<Rightarrow> 'st \<times> sdk_call list \<times> event) \<Rightarrow> 'st \<Rightarrow> env_dict
     \<Rightarrow> ('st \<times> sdk_call list \<times> event) list" where
  "item_runs body s [] = []"
| "item_runs body s (kv # rest) = body s kv # item_runs body (fst (body s kv)) rest"

definition is_check :: "sdk_call \<Rightarrow> bool" where
  "is_check c = (op_name c = ''get_parameter'' \<or> op_name c = ''describe_secret'')"

text \<open>
  The step a call is: the existence check, a write that carries tags (a create), a write
  that carries none (an update). \<open>existence\<close> is what the check tells a dispatcher whose
  not-found exception is the given class; \<open>stored_value\<close> is the payload of a write.
\<close>

datatype step = Existence_check | Create_with_tags "(string \<times> string) list" | Update_without_tags

definition step_of :: "sdk_call \<Rightarrow> step" where
  "step_of c =
     (if is_check c then Existence_check
      else case kwarg c ''Tags'' of
             Some (Tags ts) \<Rightarrow> Create_with_tags ts
           | _ \<Rightarrow> Update_without_tags)"

definition existence :: "string \<Rightarrow> response \<Rightarrow> bool option" where
  "existence not_found r =
     (case r of
        Returned \<Rightarrow> Some True
      | Raised e \<Rightarrow> if exn_class e = not_found then Some False else None)"

definition stored_value :: "sdk_call \<Rightarrow> arg option" where
  "stored_value c =
     (case kwarg c ''Value'' of Some v \<Rightarrow> Some v | None \<Rightarrow> kwarg c ''SecretString'')"

text \<open>
  Sensitivity as the specification words it: some part of the key is one of the markers
  up to case.
\<close>

definition spec_sensitive :: "string \<Rightarrow> bool" where
  "spec_sensitive key =
     (\<exists>marker \<in> set [''password'', ''secret'', ''key'', ''token''].
        \<exists>before part after. key = before @ part @ after \<and> lower part = marker)"

section \<open>JSON texts\<close>

text \<open>
  What a valid JSON text is (RFC 8259), as a recogniser: each function consumes one
  construct from the front of its input and returns the rest, or \<open>None\<close> when the
  input does not start with one. A string may hold any character from U+0020 on but the
  double quote and the backslash, which must be escaped. \<open>json_parse\<close> works on a value,
  on an array or object after its opening bracket, and on their elements and members; the
  tests on lengths there only make its termination evident, they never fail
  (\<open>json_parse_shorter\<close>). \<open>json_plain\<close> says that a text needs no escaping.
\<close>

definition json_ws :: "char \<Rightarrow> bool" where
  "json_ws c = (c = CHR 0x20 \<or> c = CHR 0x09 \<or> c = CHR 0x0A \<or> c = CHR 0x0D)"

definition skip_ws :: "string \<Rightarrow> string" where
  "skip_ws s = dropWhile json_ws s"

definition is_digit :: "char \<Rightarrow> bool" where
  "is_digit c = (48 \<le> (of_char c :: nat) \<and> (of_char c :: nat) \<le> 57)"

definition is_hex :: "char \<Rightarrow> bool" where
  "is_hex c =
     (let n = (of_char c :: nat)
      in (48 \<le> n \<and> n \<le> 57) \<or> (65 \<le> n \<and> n \<le> 70) \<or> (97 \<le> n \<and> n \<le> 102))"

fun json_chars :: "string \<Rightarrow> string option" where
  "json_chars [] = None"
| "json_chars (c # cs) =
     (if c = CHR 0x22 then Some cs
      else if c = CHR 0x5C
      then (case cs of
              [] \<Rightarrow> None
            | e # r \<Rightarrow>
                if e \<in> set [CHR 0x22, CHR 0x5C, CHR ''/'', CHR ''b'', CHR ''f'', CHR ''n'',
                             CHR ''r'', CHR ''t'']
                then json_chars r
                else if e = CHR ''u'' \<and> 4 \<le> length r \<and> list_all is_hex (take 4 r)
                then json_chars (drop 4 r)
                else None)
      else if (of_char c :: nat) < 32 then None
      else json_chars cs)"

definition json_digits :: "string \<Rightarrow> string option" where
  "json_digits s = (case s of [] \<Rightarrow> None | c # cs \<Rightarrow> if is_digit c then Some (dropWhile is_digit cs) else None)"

definition json_number :: "string \<Rightarrow> string option" where
  "json_number s =
     (let s1 = (case s of [] \<Rightarrow> [] | c # cs \<Rightarrow> if c = CHR ''-'' then cs else s)
      in case (case s1 of
                 [] \<Rightarrow> None
               | c # cs \<Rightarrow> if c = CHR ''0'' then Some cs else json_digits s1) of
           None \<Rightarrow> None
         | Some s2 \<Rightarrow>
             (case (case s2 of
                      [] \<Rightarrow> Some s2
                    | c # cs \<Rightarrow> if c = CHR ''.'' then json_digits cs else Some s2) of
                None \<Rightarrow> None
              | Some s3 \<Rightarrow>
                  (case s3 of
                     [] \<Rightarrow> Some s3
                   | c # cs \<Rightarrow>
                       if c = CHR ''e'' \<or> c = CHR ''E''
                       then (case cs of
                               [] \<Rightarrow> None
                             | d # ds \<Rightarrow>
                                 if d = CHR ''+'' \<or> d = CHR ''-'' then json_digits ds
                                 else json_digits cs)
                       else Some s3)))"

datatype json_part = JValue | JArray | JElements | JObject | JMembers

fun json_rank :: "json_part \<Rightarrow> nat" where
  "json_rank JValue = 0"
| "json_rank JElements = 1"
| "json_rank JMembers = 1"
| "json_rank JArray = 2"
| "json_rank JObject = 2"

function json_parse :: "json_part \<Rightarrow> string \<Rightarrow> string option" where
  "json_parse JValue s =
     (case s of
        [] \<Rightarrow> None
      | c # cs \<Rightarrow>
          if c = CHR ''{'' then json_parse JObject cs
          else if c = CHR ''['' then json_parse JArray cs
          else if c = CHR 0x22 then json_chars cs
          else if startswith s ''true'' then Some (drop 4 s)
          else if startswith s ''false'' then Some (drop 5 s)
          else if startswith s ''null'' then Some (drop 4 s)
          else json_number s)"
| "json_parse JArray s =
     (case skip_ws s of
        [] \<Rightarrow> None
      | d # r \<Rightarrow> if d = CHR '']'' then Some r else json_parse JElements s)"
| "json_parse JElements s =
     (case json_parse JValue (skip_ws s) of
        None \<Rightarrow> None
      | Some r \<Rightarrow>
          (case skip_ws r of
             [] \<Rightarrow> None
           | d # r' \<Rightarrow>
               if d = CHR '']'' then Some r'
               else if d = CHR '','' \<and> length r' < length s then json_parse JElements r'
               else None))"
| "json_parse JObject s =
     (case skip_ws s of
        [] \<Rightarrow> None
      | d # r \<Rightarrow> if d = CHR ''}'' then Some r else json_parse JMembers s)"
| "json_parse JMembers s =
     (case skip_ws s of
        [] \<Rightarrow> None
      | q # cs \<Rightarrow>
          if q = CHR 0x22
          then (case json_chars cs of
                  None \<Rightarrow> None
                | Some r \<Rightarrow>
                    (case skip_ws r of
                       [] \<Rightarrow> None
                     | colon # r1 \<Rightarrow>
                         if colon = CHR '':'' \<and> length r1 < length s
                         then (case json_parse JValue (skip_ws r1) of
                                 None \<Rightarrow> None
                               | Some r2 \<Rightarrow>
                                   (case skip_ws r2 of
                                      [] \<Rightarrow> None
                                    | d # r3 \<Rightarrow>
                                        if d = CHR ''}'' then Some r3
                                        else if d = CHR '','' \<and> length r3 < length s
                                        then json_parse JMembers r3
                                        else None))
                         else None))
          else None)"

  by pat_completeness auto
termination
proof (relation "measure (\<lambda>(p, s). 3 * length s + json_rank p)", goal_cases)
  case (5 s)
  then show ?case
    using length_dropWhile_le [of json_ws s] by (simp add: skip_ws_def)
next
  case (8 s q cs r colon r1)
  then show ?case
    using length_dropWhile_le [of json_ws r1] by (simp add: skip_ws_def)
qed simp_all

definition valid_json :: "string \<Rightarrow> bool" where
  "valid_json s = (case json_parse JValue (skip_ws s) of None \<Rightarrow> False | Some r \<Rightarrow> skip_ws r = [])"

definition json_plain :: "string \<Rightarrow> bool" where
  "json_plain s = list_all (\<lambda>c. c \<noteq> CHR 0x22 \<and> c \<noteq> CHR 0x5C \<and> 32 \<le> (of_char c :: nat)) s"

section \<open>A simulated store and sample inputs\<close>

text \<open>
  Concrete inputs for the runs evaluated below. \<open>sim_sdk broken denied\<close> is an SDK over
  a store that is the list of the names it holds: a read of a name in \<open>broken\<close> raises a
  service error, a read of a name the store lacks raises the not-found exception of the
  service, a write to a name in \<open>denied\<close> raises, any other write stores the name, and
  every other call returns.
\<close>

definition call_target :: "sdk_call \<Rightarrow> string" where
  "call_target c =
     (case kwarg c ''Name'' of
        Some (Str n) \<Rightarrow> n
      | _ \<Rightarrow> (case kwarg c ''SecretId'' of Some (Str n) \<Rightarrow> n | _ \<Rightarrow> []))"

definition sim_sdk :: "string list \<Rightarrow> string list \<Rightarrow> string list client" where
  "sim_sdk broken denied store c =
     (let n = call_target c
      in if op_name c = ''get_parameter'' \<or> op_name c = ''describe_secret''
         then (if n \<in> set broken
               then (Raised (Exn ''InternalServerError'' ''service unavailable''), store)
               else if n \<in> set store then (Returned, store)
               else (Raised (Exn (if op_name c = ''get_parameter'' then ''ParameterNotFound''
                                  else ''ResourceNotFoundException'') ''not found''), store))
         else if op_name c = ''put_parameter'' \<or> op_name c = ''update_secret''
                 \<or> op_name c = ''create_secret''
         then (if n \<in> set denied
               then (Raised (Exn ''AccessDeniedException'' ''access denied''), store)
               else (Returned, List.insert n store))
         else (Returned, store))"

definition sample_args :: "target \<Rightarrow> args" where
  "sample_args t =
     \<lparr>args_profile = ''dev'', args_tag = ''app'', args_target = t, args_env_file = ''.env''\<rparr>"

definition sample_fs :: "string \<Rightarrow> string list option" where
  "sample_fs path =
     (if path = ''.env'' then Some [''A=1\<newline>'', ''DB_PASSWORD=x\<newline>'', ''C=3\<newline>'']
      else None)"

definition comments_fs :: "string \<Rightarrow> string list option" where
  "comments_fs path = Some [''# nothing here\<newline>'', ''\<newline>'']"

text \<open>
  A standard output that can write both marks (UTF-8), and one that can write neither
  (ASCII, or a legacy code page).
\<close>

definition wide_stdout :: stdout where
  "wide_stdout = \<lparr>check_mark_error = None, cross_mark_error = None\<rparr>"

definition narrow_stdout :: stdout where
  "narrow_stdout =
     \<lparr>check_mark_error = Some ''codec cannot encode character U+2713'',
      cross_mark_error = Some ''codec cannot encode character U+2717''\<rparr>"

section \<open>Properties of the parser\<close>

lemma map_of_dict_setitem: "map_of (dict_setitem d k v) = (map_of d)(k \<mapsto> v)"
  by (induction d k v rule: dict_setitem.induct) auto

lemma keys_dict_setitem:
  "map fst (dict_setitem d k v) = (if k \<in> fst ` set d then map fst d else map fst d @ [k])"
  by (induction d k v rule: dict_setitem.induct) auto

lemma first_occurrences_snoc:
  "first_occurrences (ks @ [k]) =
     (if k \<in> set ks then first_occurrences ks else first_occurrences ks @ [k])"
  by (simp add: first_occurrences_def)

lemma set_first_occurrences: "set (first_occurrences ks) = set ks"
  by (simp add: first_occurrences_def)

lemma distinct_first_occurrences: "distinct (first_occurrences ks)"
  by (simp add: first_occurrences_def)

lemma first_occurrences_distinct: "distinct ks \<Longrightarrow> first_occurrences ks = ks"
  by (simp add: first_occurrences_def distinct_remdups_id)

lemma set_all_snoc: "set_all d (es @ [e]) = dict_setitem (set_all d es) (fst e) (snd e)"
  by (simp add: set_all_def)

lemma keys_set_all:
  "distinct (map fst d) \<Longrightarrow>
   map fst (set_all d es) = first_occurrences (map fst d @ map fst es)"
proof (induction es rule: rev_induct)
  case Nil
  then show ?case by (simp add: set_all_def first_occurrences_distinct)
next
  case (snoc e es)
  let ?ks = "map fst d @ map fst es"
  have ih: "map fst (set_all d es) = first_occurrences ?ks"
    using snoc by simp
  have "set (map fst (set_all d es)) = set ?ks"
    by (simp only: ih set_first_occurrences)
  then have mem: "fst e \<in> fst ` set (set_all d es) \<longleftrightarrow> fst e \<in> set ?ks"
    by simp
  have "map fst (set_all d (es @ [e])) =
          (if fst e \<in> set ?ks then first_occurrences ?ks else first_occurrences ?ks @ [fst e])"
    by (simp only: set_all_snoc keys_dict_setitem mem ih)
  also have "\<dots> = first_occurrences (?ks @ [fst e])"
    by (simp only: first_occurrences_snoc)
  finally show ?case by simp
qed

lemma map_of_set_all: "map_of (set_all d es) = map_of d ++ map_of (rev es)"
proof (induction es rule: rev_induct)
  case Nil
  then show ?case by (simp add: set_all_def)
next
  case (snoc e es)
  then show ?case
    by (cases e) (simp add: set_all_snoc map_of_dict_setitem map_add_upd_left fun_eq_iff map_add_def)
qed

lemma parse_lines_set_all:
  "parse_lines n ls d out = (d', out') \<Longrightarrow> d' = set_all d (entries ls)"
proof (induction ls arbitrary: n d out)
  case Nil
  then show ?case by (simp add: set_all_def entries_def)
next
  case (Cons raw rest)
  then show ?case
    by (auto simp: Let_def line_entry_def entries_def set_all_def
        split: if_splits prod.splits)
qed




lemma count_key_distinct:
  "distinct (map fst d) \<Longrightarrow> k \<in> fst ` set d \<Longrightarrow> length (filter (\<lambda>e. fst e = k) d) = 1"
  by (induction d) (auto simp: filter_empty_conv image_iff)

text \<open>
  Claim C9. When the same key stands on more than one \<^verbatim>\<open>key=value\<close> line, the parsed
  mapping has exactly one entry for it, with the value of its last occurrence, and the
  keys stand in the order of their first occurrences. Stated for the last occurrence
  \<open>(key, val)\<close> of any key among the entries of the file.
\<close>

theorem duplicate_key_last_value_first_position:
  assumes "parse_env_file (Some lines) = Inr (env_vars, warnings)"
    and "entries lines = before @ (key, val) # after"
    and "key \<notin> fst ` set after"
  shows "map_of env_vars key = Some val
       \<and> length (filter (\<lambda>e. fst e = key) env_vars) = 1
       \<and> map fst env_vars = first_occurrences (map fst (entries lines))"
proof -
  from assms(1) have pl: "parse_lines 1 lines [] [] = (env_vars, warnings)"
    by (simp add: parse_env_file_def)
  then have ev: "env_vars = set_all [] (entries lines)"
    by (rule parse_lines_set_all)
  have keys: "map fst env_vars = first_occurrences (map fst (entries lines))"
    using keys_set_all [of "[]" "entries lines"] by (simp add: ev)
  have mo: "map_of env_vars = map_of (rev after @ (key, val) # rev before)"
    by (simp add: ev map_of_set_all assms(2))
  have "map_of (rev after) key = None"
    using assms(3) by (simp add: map_of_eq_None_iff)
  then have val: "map_of env_vars key = Some val"
    by (simp add: mo map_add_def)
  have "distinct (map fst env_vars)"
    by (simp only: keys distinct_first_occurrences)
  moreover have "key \<in> fst ` set env_vars"
    using val by (metis domI dom_map_of_conv_image_fst)
  ultimately have "length (filter (\<lambda>e. fst e = key) env_vars) = 1"
    by (rule count_key_distinct)
  with val keys show ?thesis by simp
qed

lemmas parser_eval =
  parse_env_file_def Let_def strip_def is_space_def startswith_def endswith_def split_eq_def
  unquote_def slice_1_m1_def entries_def line_entry_def first_occurrences_def

theorem duplicate_key_witness:
  "parse_env_file (Some [''A=1\<newline>'', ''B=2\<newline>'', ''A=3\<newline>''])
     = Inr ([(''A'', ''3''), (''B'', ''2'')], [])
   \<and> entries [''A=1\<newline>'', ''B=2\<newline>'', ''A=3\<newline>'']
     = [(''A'', ''1''), (''B'', ''2'')] @ (''A'', ''3'') # []
   \<and> map_of [(''A'', ''3''), (''B'', ''2'')] ''A'' = Some ''3''
   \<and> length (filter (\<lambda>e. fst e = ''A'') [(''A'', ''3''), (''B'', ''2'')]) = 1
   \<and> map fst [(''A'', ''3''), (''B'', ''2'')]
     = first_occurrences (map fst (entries [''A=1\<newline>'', ''B=2\<newline>'', ''A=3\<newline>'']))"
proof -
  have p: "parse_env_file (Some [''A=1\<newline>'', ''B=2\<newline>'', ''A=3\<newline>''])
     = Inr ([(''A'', ''3''), (''B'', ''2'')], [])"
    by (simp add: parser_eval)
  have e: "entries [''A=1\<newline>'', ''B=2\<newline>'', ''A=3\<newline>'']
     = [(''A'', ''1''), (''B'', ''2'')] @ (''A'', ''3'') # []"
    by (simp add: parser_eval)
  have n: "''A'' \<notin> fst ` set ([] :: (string \<times> string) list)"
    by simp
  from duplicate_key_last_value_first_position [OF p e n] p e show ?thesis
    by blast
qed

lemma set_dropWhile_subset: "set (dropWhile P xs) \<subseteq> set xs"
  by (induction xs) auto

lemma set_strip: "set (strip s) \<subseteq> set s"
proof -
  have "set (strip s) = set (dropWhile is_space (rev (dropWhile is_space s)))"
    by (simp add: strip_def)
  also have "\<dots> \<subseteq> set (rev (dropWhile is_space s))"
    by (rule set_dropWhile_subset)
  also have "\<dots> = set (dropWhile is_space s)"
    by simp
  also have "\<dots> \<subseteq> set s"
    by (rule set_dropWhile_subset)
  finally show ?thesis .
qed




lemma unquote_is_spec_unquote:
  "v \<noteq> [CHR 0x22] \<Longrightarrow> v \<noteq> [CHR 0x27] \<Longrightarrow> unquote v = spec_unquote v"
proof (cases v)
  case Nil
  then show ?thesis by (simp add: unquote_def spec_unquote_def startswith_def endswith_def)
next
  case (Cons c cs)
  assume "v \<noteq> [CHR 0x22]" "v \<noteq> [CHR 0x27]"
  show ?thesis
  proof (cases cs rule: rev_cases)
    case Nil
    with Cons \<open>v \<noteq> [CHR 0x22]\<close> \<open>v \<noteq> [CHR 0x27]\<close> show ?thesis
      by (simp add: unquote_def spec_unquote_def startswith_def endswith_def)
  next
    case (snoc bs b)
    with Cons show ?thesis
      by (auto simp: unquote_def spec_unquote_def startswith_def endswith_def slice_1_m1_def)
  qed
qed

lemma strip_rstrip: "strip s = rstrip (dropWhile is_space s)"
  by (simp add: strip_def rstrip_def)

lemma rstrip_Nil: "rstrip [] = []"
  by (simp add: rstrip_def)

lemma rstrip_Cons:
  "rstrip (c # s) = (if rstrip s = [] \<and> is_space c then [] else c # rstrip s)"
  by (auto simp: rstrip_def dropWhile_append dropWhile_eq_Nil_conv)

lemma rstrip_empty_iff: "rstrip s = [] \<longleftrightarrow> list_all is_space s"
  by (auto simp: rstrip_def dropWhile_eq_Nil_conv list_all_iff)

lemma lstrip_empty_iff: "dropWhile is_space s = [] \<longleftrightarrow> list_all is_space s"
  by (auto simp: dropWhile_eq_Nil_conv list_all_iff)

lemma rstrip_idem: "rstrip (rstrip s) = rstrip s"
  by (simp add: rstrip_def)

lemma lstrip_rstrip: "dropWhile is_space (rstrip s) = rstrip (dropWhile is_space s)"
proof (induction s)
  case Nil
  show ?case by (simp add: rstrip_Nil)
next
  case (Cons c s)
  show ?case
  proof (cases "is_space c")
    case True
    show ?thesis
    proof (cases "rstrip s = []")
      case e: True
      with rstrip_empty_iff [of s] have "list_all is_space s" by blast
      with lstrip_empty_iff [of s] have d: "dropWhile is_space s = []" by blast
      have l: "rstrip (c # s) = []"
        using True e by (simp add: rstrip_Cons)
      have r: "dropWhile is_space (c # s) = []"
        using True d by simp
      show ?thesis
        unfolding l r by (simp add: rstrip_Nil)
    next
      case False
      with True Cons show ?thesis by (simp add: rstrip_Cons)
    qed
  next
    case False
    then show ?thesis by (simp add: rstrip_Cons)
  qed
qed

lemma lstrip_all_space: "list_all is_space (dropWhile is_space s) \<longleftrightarrow> dropWhile is_space s = []"
proof
  assume a: "list_all is_space (dropWhile is_space s)"
  show "dropWhile is_space s = []"
  proof (rule ccontr)
    assume n: "dropWhile is_space s \<noteq> []"
    then have "\<not> is_space (hd (dropWhile is_space s))"
      by (rule hd_dropWhile)
    moreover from a n have "is_space (hd (dropWhile is_space s))"
      by (cases "dropWhile is_space s") simp_all
    ultimately show False by blast
  qed
next
  assume e: "dropWhile is_space s = []"
  show "list_all is_space (dropWhile is_space s)"
    unfolding e by simp
qed

lemma strip_empty_iff: "strip s = [] \<longleftrightarrow> list_all is_space s"
  unfolding strip_rstrip rstrip_empty_iff lstrip_all_space lstrip_empty_iff ..


lemma eq_not_space: "\<not> is_space (CHR ''='')"
  by (simp add: is_space_def)

lemma rstrip_after: "\<not> is_space c \<Longrightarrow> rstrip (a @ c # b) = a @ c # rstrip b"
  by (simp add: rstrip_def dropWhile_append3)

lemma strip_around_eq:
  "strip (a @ CHR ''='' # b) = dropWhile is_space a @ CHR ''='' # rstrip b"
  by (simp add: strip_rstrip dropWhile_append3 eq_not_space rstrip_after)

lemma strip_lstrip: "strip (dropWhile is_space a) = strip a"
  by (simp add: strip_rstrip)

lemma strip_of_rstrip: "strip (rstrip b) = strip b"
  by (simp add: strip_rstrip lstrip_rstrip rstrip_idem)

lemma startswith_strip_hash: "startswith (strip raw) ''#'' \<longleftrightarrow> spec_comment raw"
proof (cases "dropWhile is_space raw")
  case Nil
  show ?thesis
    unfolding spec_comment_def strip_rstrip Nil by (simp add: rstrip_Nil)
next
  case (Cons c t)
  have "dropWhile is_space raw \<noteq> []"
    unfolding Cons by simp
  then have "\<not> is_space (hd (dropWhile is_space raw))"
    by (rule hd_dropWhile)
  then have "\<not> is_space c"
    unfolding Cons by simp
  then show ?thesis
    unfolding spec_comment_def strip_rstrip Cons
    by (simp add: rstrip_Cons startswith_def)
qed

lemma split_at_eq:
  assumes "CHR ''='' \<notin> set a"
  shows "takeWhile (\<lambda>c. c \<noteq> CHR ''='') (a @ CHR ''='' # b) = a"
    and "tl (dropWhile (\<lambda>c. c \<noteq> CHR ''='') (a @ CHR ''='' # b)) = b"
proof -
  from assms have all: "\<forall>x \<in> set a. x \<noteq> CHR ''=''" by blast
  then show "takeWhile (\<lambda>c. c \<noteq> CHR ''='') (a @ CHR ''='' # b) = a"
    by (simp add: takeWhile_tail)
  from all show "tl (dropWhile (\<lambda>c. c \<noteq> CHR ''='') (a @ CHR ''='' # b)) = b"
    by (simp add: dropWhile_append3)
qed

lemma line_entry_spec:
  "line_entry raw =
     (if spec_blank raw \<or> spec_comment raw then None
      else if CHR ''='' \<in> set raw
      then Some (fst (spec_key_value raw), unquote (snd (spec_key_value raw)))
      else None)"
proof (cases "CHR ''='' \<in> set raw")
  case False
  with set_strip [of raw] have "CHR ''='' \<notin> set (strip raw)" by blast
  with False show ?thesis
    by (simp add: line_entry_def Let_def)
next
  case True
  then obtain a b where raw: "raw = a @ CHR ''='' # b" and a: "CHR ''='' \<notin> set a"
    by (auto dest: split_list_first)
  have la: "CHR ''='' \<notin> set (dropWhile is_space a)"
    using a set_dropWhile_subset [of is_space a] by blast
  have st: "strip raw = dropWhile is_space a @ CHR ''='' # rstrip b"
    by (simp add: raw strip_around_eq)
  have code: "split_eq (strip raw) = (dropWhile is_space a, rstrip b)"
    by (simp add: split_eq_def st split_at_eq [OF la])
  have spec: "spec_key_value raw = (strip a, strip b)"
    by (simp add: spec_key_value_def raw split_at_eq [OF a])
  have ne: "strip raw \<noteq> []" "CHR ''='' \<in> set (strip raw)"
    by (simp_all add: st)
  with strip_empty_iff [of raw] have nb: "\<not> spec_blank raw"
    by (simp add: spec_blank_def)
  show ?thesis
    using True nb ne
    by (simp add: line_entry_def Let_def code spec startswith_strip_hash strip_lstrip
        strip_of_rstrip)
qed

lemma parse_refines_spec:
  assumes "\<forall>raw \<in> set lines.
             snd (spec_key_value raw) \<noteq> [CHR 0x22] \<and> snd (spec_key_value raw) \<noteq> [CHR 0x27]"
  shows "fst (parse_lines 1 lines [] []) = spec_parse lines"
proof -
  have "line_entry raw = spec_entry raw" if "raw \<in> set lines" for raw
    using assms that
    by (simp add: line_entry_spec spec_entry_def unquote_is_spec_unquote)
  then have "List.map_filter line_entry lines = List.map_filter spec_entry lines"
    by (simp add: map_filter_def cong: map_cong filter_cong)
  moreover have "fst (parse_lines 1 lines [] []) = set_all [] (entries lines)"
    using parse_lines_set_all [of 1 lines "[]" "[]"] by (cases "parse_lines 1 lines [] []") simp
  ultimately show ?thesis
    by (simp add: spec_parse_def entries_def)
qed

text \<open>
  Claim C1. The parser skips blank lines and comments, splits at the first \<^verbatim>\<open>=\<close>,
  trims key and value and removes a matching pair of quotes: on every file in which no
  trimmed value is one quote character alone it gives the mapping of the specification's
  wording (\<open>parse_refines_spec\<close>). On a value that is one quote character,
  \<^verbatim>\<open>startswith\<close> and \<^verbatim>\<open>endswith\<close> both see that one character and \<^verbatim>\<open>value[1:-1]\<close>
  is empty: the file \<^verbatim>\<open>K="\<close> gives the value \<^verbatim>\<open>''\<close>, where no pair of quotes
  surrounds anything and the specification's wording keeps the character.
\<close>

theorem lone_quote_value_is_emptied:
  "parse_env_file (Some [[CHR ''K'', CHR ''='', CHR 0x22, CHR 0x0A]]) = Inr ([(''K'', [])], [])
   \<and> spec_parse [[CHR ''K'', CHR ''='', CHR 0x22, CHR 0x0A]] = [(''K'', [CHR 0x22])]"
  by (simp add: parser_eval spec_parse_def spec_entry_def spec_blank_def spec_comment_def
      spec_key_value_def spec_unquote_def set_all_def List.map_filter_simps)

section \<open>Properties of the run\<close>

lemmas sdk_eval =
  main_def push_to_ssm_def push_to_secrets_manager_def open_session_def emit_def
  push_item_ssm_def push_item_secrets_manager_def sim_sdk_def call_target_def kwarg_def
  get_parameter_def put_parameter_update_def put_parameter_create_def
  describe_secret_def update_secret_def create_secret_def
  parameter_name_of_def secret_name_of_def secret_string_of_def tags_of_def
  sample_args_def sample_fs_def comments_fs_def wide_stdout_def narrow_stdout_def
  service_of_def label_of_def

text \<open>
  Claim C7. When the environment file does not exist, the program ends with exit code 1
  and has made no SDK call at all: no session, no client, no read, no write.
\<close>

theorem missing_file_is_fatal_before_any_call:
  "fs (args_env_file a) = None \<Longrightarrow> main a fs std cl s = (1, [], [File_not_found])"
  by (simp add: main_def parse_env_file_def)

theorem missing_file_witness:
  "sample_fs (args_env_file ((sample_args Ssm)\<lparr>args_env_file := ''prod.env''\<rparr>)) = None
   \<and> main ((sample_args Ssm)\<lparr>args_env_file := ''prod.env''\<rparr>) sample_fs wide_stdout
         (sim_sdk [] []) []
       = (1, [], [File_not_found])"
proof -
  have h: "sample_fs (args_env_file ((sample_args Ssm)\<lparr>args_env_file := ''prod.env''\<rparr>)) = None"
    by (simp add: sample_fs_def sample_args_def)
  from missing_file_is_fatal_before_any_call
    [where fs = sample_fs and a = "(sample_args Ssm)\<lparr>args_env_file := ''prod.env''\<rparr>"
       and std = wide_stdout and cl = "sim_sdk [] []" and s = "[]", OF h] h
  show ?thesis by simp
qed

text \<open>
  Claim C8. When parsing gives an empty mapping, the program ends with exit code 1 after
  the message that no variables were found, and neither dispatcher has run: no SDK call
  was made.
\<close>

theorem empty_mapping_is_fatal:
  "parse_env_file (fs (args_env_file a)) = Inr ([], warnings) \<Longrightarrow>
   main a fs std cl s = (1, [], warnings @ [No_variables])"
  by (simp add: main_def)

theorem empty_mapping_witness:
  "parse_env_file (comments_fs (args_env_file (sample_args Secretsmanager))) = Inr ([], [])
   \<and> main (sample_args Secretsmanager) comments_fs wide_stdout (sim_sdk [] []) []
       = (1, [], [No_variables])"
proof -
  have h: "parse_env_file (comments_fs (args_env_file (sample_args Secretsmanager))) = Inr ([], [])"
    by (simp add: comments_fs_def parser_eval)
  from empty_mapping_is_fatal
    [where fs = comments_fs and a = "sample_args Secretsmanager"
       and std = wide_stdout and cl = "sim_sdk [] []" and s = "[]", OF h] h
  show ?thesis by simp
qed

text \<open>
  The report of one item says what happened to it: pushed when the write returned,
  failed with the message of the exception when the read raised anything but the
  not-found exception of the service, or when the write raised.
\<close>

lemma report_push_item_ssm:
  "event_of (push_item_ssm cl profile_name tag s (key, val)) =
     (case cl s (get_parameter (parameter_name_of tag key)) of
        (Returned, s1) \<Rightarrow>
          (case cl s1 (put_parameter_update (parameter_name_of tag key) val (param_type_of key)) of
             (Returned, s2) \<Rightarrow> Pushed (parameter_name_of tag key)
           | (Raised e, s2) \<Rightarrow> Failed_to_push (parameter_name_of tag key) (exn_msg e))
      | (Raised e, s1) \<Rightarrow>
          if exn_class e = ''ParameterNotFound''
          then (case cl s1 (put_parameter_create (parameter_name_of tag key) val
                              (param_type_of key) (tags_of profile_name tag)) of
                  (Returned, s2) \<Rightarrow> Pushed (parameter_name_of tag key)
                | (Raised e', s2) \<Rightarrow> Failed_to_push (parameter_name_of tag key) (exn_msg e'))
          else Failed_to_push (parameter_name_of tag key) (exn_msg e))"
  by (simp add: push_item_ssm_def event_of_def Let_def split: prod.splits response.splits)

lemma report_push_item_secrets_manager:
  "event_of (push_item_secrets_manager cl profile_name tag s (key, val)) =
     (case cl s (describe_secret (secret_name_of tag key)) of
        (Returned, s1) \<Rightarrow>
          (case cl s1 (update_secret (secret_name_of tag key) (secret_string_of key val)) of
             (Returned, s2) \<Rightarrow> Pushed (secret_name_of tag key)
           | (Raised e, s2) \<Rightarrow> Failed_to_push (secret_name_of tag key) (exn_msg e))
      | (Raised e, s1) \<Rightarrow>
          if exn_class e = ''ResourceNotFoundException''
          then (case cl s1 (create_secret (secret_name_of tag key) (secret_string_of key val)
                              (tags_of profile_name tag)) of
                  (Returned, s2) \<Rightarrow> Pushed (secret_name_of tag key)
                | (Raised e', s2) \<Rightarrow> Failed_to_push (secret_name_of tag key) (exn_msg e'))
          else Failed_to_push (secret_name_of tag key) (exn_msg e))"
  by (simp add: push_item_secrets_manager_def event_of_def Let_def
      split: prod.splits response.splits)

lemma item_body_reports:
  "event_of (item_body cl t profile_name tag s kv) = Pushed n
     \<or> (\<exists>m. event_of (item_body cl t profile_name tag s kv) = Failed_to_push n m)"
  if "n = (case t of Ssm \<Rightarrow> parameter_name_of tag (fst kv)
                   | Secretsmanager \<Rightarrow> secret_name_of tag (fst kv))"
  using that
  by (cases t)
     (auto simp: item_body_def push_item_ssm_def push_item_secrets_manager_def event_of_def
        Let_def split: prod.splits response.splits)

lemma emit_wide:
  assumes "check_mark_error std = None" and "cross_mark_error std = None"
  shows "emit std ev = ([ev], None)"
  using assms by (cases ev) (simp_all add: emit_def)

text \<open>
  On a standard output that can write both marks nothing interrupts the loop: every item
  is run, in order, from the state the one before it left, whatever became of the items
  before it, and each report is made as it stands.
\<close>

lemma for_items_wide:
  assumes "check_mark_error std = None" and "cross_mark_error std = None"
  shows "for_items body std s env_vars
           = (if env_vars = [] then s else fst (last (item_runs body s env_vars)),
              concat (map calls_of (item_runs body s env_vars)),
              map event_of (item_runs body s env_vars), None)"
proof (induction env_vars arbitrary: s)
  case Nil
  show ?case by simp
next
  case (Cons kv rest)
  obtain s1 calls ev where b: "body s kv = (s1, calls, ev)"
    by (cases "body s kv")
  show ?case
    using Cons [of s1] b emit_wide [OF assms, of ev]
    by (cases rest) (simp_all add: calls_of_def event_of_def)
qed

lemma length_item_runs: "length (item_runs body s env_vars) = length env_vars"
  by (induction env_vars arbitrary: s) simp_all

lemma run_on_wide_stdout:
  assumes "parse_env_file (fs (args_env_file a)) = Inr (env_vars, warnings)"
    and "env_vars \<noteq> []"
    and "open_session cl s (args_profile a) (service_of (args_target a)) = (None, s1, opened)"
    and "check_mark_error std = None" and "cross_mark_error std = None"
  shows "main a fs std cl s
           = (0,
              opened @ concat (map calls_of
                 (item_runs (item_body cl (args_target a) (args_profile a) (args_tag a)) s1 env_vars)),
              warnings @ map event_of
                 (item_runs (item_body cl (args_target a) (args_profile a) (args_tag a)) s1 env_vars)
                @ [Completed (label_of (args_target a)) (length env_vars)])"
proof (cases "args_target a")
  case Ssm
  with assms(3) have o: "open_session cl s (args_profile a) ''ssm'' = (None, s1, opened)"
    by (simp add: service_of_def)
  show ?thesis
    using assms(1,2) Ssm o
    by (simp add: main_def push_to_ssm_def for_items_wide [OF assms(4,5)] item_body_def
        label_of_def)
next
  case Secretsmanager
  with assms(3)
  have o: "open_session cl s (args_profile a) ''secretsmanager'' = (None, s1, opened)"
    by (simp add: service_of_def)
  show ?thesis
    using assms(1,2) Secretsmanager o
    by (simp add: main_def push_to_secrets_manager_def for_items_wide [OF assms(4,5)]
        item_body_def label_of_def)
qed

text \<open>
  Claim C5. A failure of an item is caught, reported and stops nothing, and the exit code
  stays 0, on a standard output that can write the two marks (\<open>run_on_wide_stdout\<close>
  with \<open>report_push_item_ssm\<close> and \<open>report_push_item_secrets_manager\<close>). On one that
  cannot, the handler of the item itself raises when it prints the cross line: the
  exception leaves the loop, the outer handler reports it as a failure to connect and
  the program ends with exit code 1. In the run below the write of the first of three
  items is denied: the two items after it are never read or written.
\<close>

theorem failed_item_ends_run_on_narrow_stdout:
  "main (sample_args Ssm) sample_fs narrow_stdout (sim_sdk [] [''/app/A'']) [''/app/A'']
     = (1,
        [Call ''Session'' [(''profile_name'', Str ''dev'')],
         Call ''get_credentials'' [],
         Call ''client'' [(''service_name'', Str ''ssm'')],
         get_parameter ''/app/A'',
         put_parameter_update ''/app/A'' ''1'' ''String''],
        [Logged_failure ''/app/A'' ''access denied'',
         Failed_to_connect ''SSM'' ''codec cannot encode character U+2717''])
   \<and> main (sample_args Ssm) sample_fs wide_stdout (sim_sdk [] [''/app/A'']) [''/app/A'']
     = (0,
        [Call ''Session'' [(''profile_name'', Str ''dev'')],
         Call ''get_credentials'' [],
         Call ''client'' [(''service_name'', Str ''ssm'')],
         get_parameter ''/app/A'',
         put_parameter_update ''/app/A'' ''1'' ''String'',
         get_parameter ''/app/DB_PASSWORD'',
         put_parameter_create ''/app/DB_PASSWORD'' ''x'' ''SecureString'' (tags_of ''dev'' ''app''),
         get_parameter ''/app/C'',
         put_parameter_create ''/app/C'' ''3'' ''String'' (tags_of ''dev'' ''app'')],
        [Failed_to_push ''/app/A'' ''access denied'',
         Pushed ''/app/DB_PASSWORD'',
         Pushed ''/app/C'',
         Completed ''SSM'' 3])"
proof -
  have t: "param_type_of ''A'' = ''String''" "param_type_of ''DB_PASSWORD'' = ''SecureString''"
    "param_type_of ''C'' = ''String''"
    by code_simp+
  have p: "parse_env_file (sample_fs ''.env'')
     = Inr ([(''A'', ''1''), (''DB_PASSWORD'', ''x''), (''C'', ''3'')], [])"
    by (simp add: sample_fs_def parser_eval)
  show ?thesis
    by (simp add: main_def p push_to_ssm_def open_session_def emit_def push_item_ssm_def t
        sim_sdk_def call_target_def kwarg_def get_parameter_def put_parameter_update_def
        put_parameter_create_def parameter_name_of_def tags_of_def sample_args_def
        wide_stdout_def narrow_stdout_def Let_def)
qed

text \<open>
  On that standard output the same happens to an item that was pushed: printing the check
  line raises, the handler takes it for a failure of the item and raises in turn.
\<close>

lemma pushed_item_ends_run_on_narrow_stdout:
  "main (sample_args Ssm) sample_fs narrow_stdout (sim_sdk [] []) []
     = (1,
        [Call ''Session'' [(''profile_name'', Str ''dev'')],
         Call ''get_credentials'' [],
         Call ''client'' [(''service_name'', Str ''ssm'')],
         get_parameter ''/app/A'',
         put_parameter_create ''/app/A'' ''1'' ''String'' (tags_of ''dev'' ''app'')],
        [Logged_pushed ''/app/A'',
         Logged_failure ''/app/A'' ''codec cannot encode character U+2713'',
         Failed_to_connect ''SSM'' ''codec cannot encode character U+2717''])"
proof -
  have t: "param_type_of ''A'' = ''String''"
    by code_simp
  have p: "parse_env_file (sample_fs ''.env'')
     = Inr ([(''A'', ''1''), (''DB_PASSWORD'', ''x''), (''C'', ''3'')], [])"
    by (simp add: sample_fs_def parser_eval)
  show ?thesis
    by (simp add: main_def p push_to_ssm_def open_session_def emit_def push_item_ssm_def t
        sim_sdk_def call_target_def kwarg_def get_parameter_def put_parameter_update_def
        put_parameter_create_def parameter_name_of_def tags_of_def sample_args_def
        narrow_stdout_def Let_def)
qed

section \<open>Properties of the dispatchers\<close>

lemma str_contains_iff: "str_contains sub s \<longleftrightarrow> (\<exists>before after. s = before @ sub @ after)"
proof (induction s)
  case Nil
  show ?case by auto
next
  case (Cons c cs)
  have "startswith (c # cs) sub \<longleftrightarrow> (\<exists>after. c # cs = sub @ after)"
    unfolding startswith_def
    by (metis append_eq_conv_conj append_take_drop_id)
  moreover have "(\<exists>before after. c # cs = before @ sub @ after)
      \<longleftrightarrow> (\<exists>after. c # cs = sub @ after) \<or> (\<exists>before after. cs = before @ sub @ after)"
  proof
    assume "\<exists>before after. c # cs = before @ sub @ after"
    then obtain before after where e: "c # cs = before @ sub @ after" by blast
    show "(\<exists>after. c # cs = sub @ after) \<or> (\<exists>before after. cs = before @ sub @ after)"
    proof (cases before)
      case Nil
      with e show ?thesis by auto
    next
      case (Cons b bs)
      with e have "cs = bs @ sub @ after" by simp
      then show ?thesis by blast
    qed
  next
    assume "(\<exists>after. c # cs = sub @ after) \<or> (\<exists>before after. cs = before @ sub @ after)"
    then show "\<exists>before after. c # cs = before @ sub @ after"
    proof
      assume "\<exists>after. c # cs = sub @ after"
      then obtain after where "c # cs = [] @ sub @ after" by auto
      then show ?thesis by blast
    next
      assume "\<exists>before after. cs = before @ sub @ after"
      then obtain before after where "c # cs = (c # before) @ sub @ after" by auto
      then show ?thesis by blast
    qed
  qed
  ultimately show ?case using Cons by simp
qed

lemma lower_contains_iff:
  "(\<exists>before after. lower key = before @ marker @ after)
     \<longleftrightarrow> (\<exists>before part after. key = before @ part @ after \<and> lower part = marker)"
proof
  assume "\<exists>before after. lower key = before @ marker @ after"
  then obtain b a where m: "map lower_char key = b @ marker @ a"
    by (auto simp: lower_def)
  let ?kb = "take (length b) key"
  let ?km = "take (length marker) (drop (length b) key)"
  let ?ka = "drop (length marker) (drop (length b) key)"
  have "key = ?kb @ ?km @ ?ka"
    by (simp only: append_take_drop_id)
  moreover have "map lower_char ?km = marker"
    using m by (simp add: take_map [symmetric] drop_map [symmetric])
  ultimately show "\<exists>before part after. key = before @ part @ after \<and> lower part = marker"
    unfolding lower_def by blast
next
  assume "\<exists>before part after. key = before @ part @ after \<and> lower part = marker"
  then obtain b p a where "key = b @ p @ a" "lower p = marker" by blast
  then have "lower key = lower b @ marker @ lower a"
    by (simp add: lower_def)
  then show "\<exists>before after. lower key = before @ marker @ after" by blast
qed

lemma param_type_of_spec:
  "param_type_of key = (if spec_sensitive key then ''SecureString'' else ''String'')"
  unfolding param_type_of_def spec_sensitive_def list_ex_iff str_contains_iff lower_contains_iff
  by simp

lemma calls_push_item_ssm:
  "calls_of (push_item_ssm cl profile_name tag s (key, val)) =
     (case cl s (get_parameter (parameter_name_of tag key)) of
        (Returned, s1) \<Rightarrow>
          [get_parameter (parameter_name_of tag key),
           put_parameter_update (parameter_name_of tag key) val (param_type_of key)]
      | (Raised e, s1) \<Rightarrow>
          if exn_class e = ''ParameterNotFound''
          then [get_parameter (parameter_name_of tag key),
                put_parameter_create (parameter_name_of tag key) val (param_type_of key)
                  (tags_of profile_name tag)]
          else [get_parameter (parameter_name_of tag key)])"
  by (simp add: push_item_ssm_def calls_of_def Let_def split: prod.splits response.splits)

lemma calls_push_item_secrets_manager:
  "calls_of (push_item_secrets_manager cl profile_name tag s (key, val)) =
     (case cl s (describe_secret (secret_name_of tag key)) of
        (Returned, s1) \<Rightarrow>
          [describe_secret (secret_name_of tag key),
           update_secret (secret_name_of tag key) (secret_string_of key val)]
      | (Raised e, s1) \<Rightarrow>
          if exn_class e = ''ResourceNotFoundException''
          then [describe_secret (secret_name_of tag key),
                create_secret (secret_name_of tag key) (secret_string_of key val)
                  (tags_of profile_name tag)]
          else [describe_secret (secret_name_of tag key)])"
  by (simp add: push_item_secrets_manager_def calls_of_def Let_def
      split: prod.splits response.splits)


lemma secret_string_not_value: "secret_string_of key val \<noteq> val"
proof
  assume "secret_string_of key val = val"
  then have "length (secret_string_of key val) = length val" by simp
  then show False by (simp add: secret_string_of_def)
qed


lemma kwarg_calls:
  "kwarg (put_parameter_update n v ty) ''Value'' = Some (Str v)"
  "kwarg (put_parameter_update n v ty) ''Type'' = Some (Str ty)"
  "kwarg (put_parameter_update n v ty) ''Tags'' = None"
  "kwarg (put_parameter_update n v ty) ''SecretString'' = None"
  "kwarg (put_parameter_create n v ty ts) ''Value'' = Some (Str v)"
  "kwarg (put_parameter_create n v ty ts) ''Type'' = Some (Str ty)"
  "kwarg (put_parameter_create n v ty ts) ''Tags'' = Some (Tags ts)"
  "kwarg (update_secret n ss) ''SecretString'' = Some (Str ss)"
  "kwarg (update_secret n ss) ''Value'' = None"
  "kwarg (update_secret n ss) ''Type'' = None"
  "kwarg (update_secret n ss) ''Tags'' = None"
  "kwarg (create_secret n ss ts) ''SecretString'' = Some (Str ss)"
  "kwarg (create_secret n ss ts) ''Value'' = None"
  "kwarg (create_secret n ss ts) ''Type'' = None"
  "kwarg (create_secret n ss ts) ''Tags'' = Some (Tags ts)"
  "kwarg (get_parameter n) ''Type'' = None"
  "kwarg (describe_secret n) ''Type'' = None"
  by (simp_all add: kwarg_def put_parameter_update_def put_parameter_create_def
      update_secret_def create_secret_def get_parameter_def describe_secret_def)

lemma is_check_calls:
  "is_check (get_parameter n)" "is_check (describe_secret n)"
  "\<not> is_check (put_parameter_update n v ty)" "\<not> is_check (put_parameter_create n v ty ts)"
  "\<not> is_check (update_secret n ss)" "\<not> is_check (create_secret n ss ts)"
  by (simp_all add: is_check_def put_parameter_update_def put_parameter_create_def
      update_secret_def create_secret_def get_parameter_def describe_secret_def)



lemma calls_push_item_ssm_cases:
  "calls_of (push_item_ssm cl profile_name tag s (key, val))
     \<in> {[get_parameter (parameter_name_of tag key)],
         [get_parameter (parameter_name_of tag key),
          put_parameter_update (parameter_name_of tag key) val (param_type_of key)],
         [get_parameter (parameter_name_of tag key),
          put_parameter_create (parameter_name_of tag key) val (param_type_of key)
            (tags_of profile_name tag)]}"
proof (cases "cl s (get_parameter (parameter_name_of tag key))")
  case (Pair r s1)
  then show ?thesis
    by (cases r) (simp_all add: calls_push_item_ssm)
qed

lemma calls_push_item_secrets_manager_cases:
  "calls_of (push_item_secrets_manager cl profile_name tag s (key, val))
     \<in> {[describe_secret (secret_name_of tag key)],
         [describe_secret (secret_name_of tag key),
          update_secret (secret_name_of tag key) (secret_string_of key val)],
         [describe_secret (secret_name_of tag key),
          create_secret (secret_name_of tag key) (secret_string_of key val)
            (tags_of profile_name tag)]}"
proof (cases "cl s (describe_secret (secret_name_of tag key))")
  case (Pair r s1)
  then show ?thesis
    by (cases r) (simp_all add: calls_push_item_secrets_manager)
qed

text \<open>
  Claim C3, amended. The Parameter Store variant classifies: a key that has
  \<^verbatim>\<open>password\<close>, \<^verbatim>\<open>secret\<close>, \<^verbatim>\<open>key\<close> or \<^verbatim>\<open>token\<close> in it, up to case, is
  written with type \<^verbatim>\<open>SecureString\<close>, every other key with type \<^verbatim>\<open>String\<close>. The
  Secrets Manager variant does not classify: each of its calls is the read by name, the
  update with the name and the secret string, or the create with the name, the secret
  string and the three fixed tags, spelled out below; none carries a type.
\<close>

theorem only_parameter_store_classifies:
  "param_type_of key = (if spec_sensitive key then ''SecureString'' else ''String'')
   \<and> (\<forall>c \<in> set (calls_of (push_item_ssm cl profile_name tag s (key, val))).
         \<not> is_check c \<longrightarrow> kwarg c ''Type'' = Some (Str (param_type_of key)))
   \<and> (\<forall>c \<in> set (calls_of (push_item_secrets_manager cl profile_name tag s (key, val))).
         kwarg c ''Type'' = None)
   \<and> (\<forall>c \<in> set (calls_of (push_item_secrets_manager cl profile_name tag s (key, val))).
         c = Call ''describe_secret'' [(''SecretId'', Str (tag @ ''/'' @ key))]
       \<or> c = Call ''update_secret''
               [(''SecretId'', Str (tag @ ''/'' @ key)),
                (''SecretString'',
                 Str ([CHR ''{'', CHR 0x22] @ key @ [CHR 0x22, CHR '':'', CHR '' '', CHR 0x22] @ val
                        @ [CHR 0x22, CHR ''}'']))]
       \<or> c = Call ''create_secret''
               [(''Name'', Str (tag @ ''/'' @ key)),
                (''SecretString'',
                 Str ([CHR ''{'', CHR 0x22] @ key @ [CHR 0x22, CHR '':'', CHR '' '', CHR 0x22] @ val
                        @ [CHR 0x22, CHR ''}''])),
                (''Tags'',
                 Tags [(''Source'', ''.env''), (''Profile'', profile_name), (''Tag'', tag)])])"
proof -
  have a: "\<forall>c \<in> set (calls_of (push_item_ssm cl profile_name tag s (key, val))).
         \<not> is_check c \<longrightarrow> kwarg c ''Type'' = Some (Str (param_type_of key))"
    using calls_push_item_ssm_cases [of cl profile_name tag s key val]
    by (auto simp: kwarg_calls is_check_calls)
  have b: "\<forall>c \<in> set (calls_of (push_item_secrets_manager cl profile_name tag s (key, val))).
         kwarg c ''Type'' = None"
    using calls_push_item_secrets_manager_cases [of cl profile_name tag s key val]
    by (auto simp: kwarg_calls)
  have c: "\<forall>c \<in> set (calls_of (push_item_secrets_manager cl profile_name tag s (key, val))).
         c = Call ''describe_secret'' [(''SecretId'', Str (tag @ ''/'' @ key))]
       \<or> c = Call ''update_secret''
               [(''SecretId'', Str (tag @ ''/'' @ key)),
                (''SecretString'',
                 Str ([CHR ''{'', CHR 0x22] @ key @ [CHR 0x22, CHR '':'', CHR '' '', CHR 0x22] @ val
                        @ [CHR 0x22, CHR ''}'']))]
       \<or> c = Call ''create_secret''
               [(''Name'', Str (tag @ ''/'' @ key)),
                (''SecretString'',
                 Str ([CHR ''{'', CHR 0x22] @ key @ [CHR 0x22, CHR '':'', CHR '' '', CHR 0x22] @ val
                        @ [CHR 0x22, CHR ''}''])),
                (''Tags'',
                 Tags [(''Source'', ''.env''), (''Profile'', profile_name), (''Tag'', tag)])]"
    using calls_push_item_secrets_manager_cases [of cl profile_name tag s key val]
    by (auto simp: describe_secret_def update_secret_def create_secret_def secret_name_of_def
        secret_string_of_def tags_of_def)
  from a b c param_type_of_spec show ?thesis by blast
qed

theorem classification_witness:
  "spec_sensitive ''DB_PASSWORD'' \<and> \<not> spec_sensitive ''HOST''
   \<and> calls_of (push_item_ssm (sim_sdk [] []) ''dev'' ''app'' [] (''DB_PASSWORD'', ''x''))
     = [get_parameter ''/app/DB_PASSWORD'',
        put_parameter_create ''/app/DB_PASSWORD'' ''x'' ''SecureString'' (tags_of ''dev'' ''app'')]
   \<and> kwarg (put_parameter_create ''/app/DB_PASSWORD'' ''x'' ''SecureString'' (tags_of ''dev'' ''app''))
       ''Type'' = Some (Str ''SecureString'')
   \<and> calls_of (push_item_ssm (sim_sdk [] []) ''dev'' ''app'' [] (''HOST'', ''h''))
     = [get_parameter ''/app/HOST'',
        put_parameter_create ''/app/HOST'' ''h'' ''String'' (tags_of ''dev'' ''app'')]"
proof -
  have t1: "param_type_of ''DB_PASSWORD'' = ''SecureString''"
    by code_simp
  have t2: "param_type_of ''HOST'' = ''String''"
    by code_simp
  note t = t1 t2
  have c: "calls_of (push_item_ssm (sim_sdk [] []) ''dev'' ''app'' [] (''DB_PASSWORD'', ''x''))
     = [get_parameter ''/app/DB_PASSWORD'',
        put_parameter_create ''/app/DB_PASSWORD'' ''x'' ''SecureString'' (tags_of ''dev'' ''app'')]"
    "calls_of (push_item_ssm (sim_sdk [] []) ''dev'' ''app'' [] (''HOST'', ''h''))
     = [get_parameter ''/app/HOST'',
        put_parameter_create ''/app/HOST'' ''h'' ''String'' (tags_of ''dev'' ''app'')]"
    by (simp_all add: calls_push_item_ssm t sim_sdk_def call_target_def kwarg_def
        get_parameter_def parameter_name_of_def)
  have s1: "spec_sensitive ''DB_PASSWORD''"
    using only_parameter_store_classifies
      [of "''DB_PASSWORD''" "sim_sdk [] []" "''dev''" "''app''" "[]" "''x''"] t(1)
    by (auto split: if_splits)
  have s2: "\<not> spec_sensitive ''HOST''"
    using only_parameter_store_classifies
      [of "''HOST''" "sim_sdk [] []" "''dev''" "''app''" "[]" "''h''"] t(2)
    by (auto split: if_splits)
  from s1 s2 c show ?thesis by (simp add: kwarg_calls)
qed

text \<open>
  Claim C3 as stated fails for the Secrets Manager variant: for the sensitive key
  \<^verbatim>\<open>DB_PASSWORD\<close> its calls are the read and the create, and neither carries a type or
  any other mark of protection.
\<close>

theorem secrets_manager_does_not_classify:
  "param_type_of ''DB_PASSWORD'' = ''SecureString''
   \<and> calls_of (push_item_secrets_manager (sim_sdk [] []) ''dev'' ''app'' [] (''DB_PASSWORD'', ''x''))
     = [describe_secret ''app/DB_PASSWORD'',
        create_secret ''app/DB_PASSWORD'' (secret_string_of ''DB_PASSWORD'' ''x'')
          (tags_of ''dev'' ''app'')]
   \<and> kwarg (describe_secret ''app/DB_PASSWORD'') ''Type'' = None
   \<and> kwarg (create_secret ''app/DB_PASSWORD'' (secret_string_of ''DB_PASSWORD'' ''x'')
              (tags_of ''dev'' ''app'')) ''Type'' = None
   \<and> kwargs (create_secret ''app/DB_PASSWORD'' (secret_string_of ''DB_PASSWORD'' ''x'')
               (tags_of ''dev'' ''app''))
     = [(''Name'', Str ''app/DB_PASSWORD''),
        (''SecretString'', Str (secret_string_of ''DB_PASSWORD'' ''x'')),
        (''Tags'', Tags [(''Source'', ''.env''), (''Profile'', ''dev''), (''Tag'', ''app'')])]"
proof -
  have t: "param_type_of ''DB_PASSWORD'' = ''SecureString''"
    by code_simp
  then show ?thesis
    by (simp add: calls_push_item_secrets_manager sim_sdk_def call_target_def kwarg_def
        describe_secret_def create_secret_def secret_name_of_def tags_of_def)
qed

text \<open>
  Claim C4, amended. When the existence checks of the two variants have the same outcome,
  the two make the same steps: the check, then the create with the same tags or the
  update with none. They differ in the rest: the Parameter Store variant sends the type
  it classified and stores the value itself, the Secrets Manager variant sends no type
  and stores the secret string built from key and value, which is never the value.
\<close>

theorem variants_share_steps_not_values:
  assumes "existence ''ParameterNotFound'' (fst (cl1 s1 (get_parameter (parameter_name_of tag key))))
         = existence ''ResourceNotFoundException''
             (fst (cl2 s2 (describe_secret (secret_name_of tag key))))"
  shows "map step_of (calls_of (push_item_ssm cl1 profile_name tag s1 (key, val)))
           = map step_of (calls_of (push_item_secrets_manager cl2 profile_name tag s2 (key, val)))
       \<and> (\<forall>c \<in> set (calls_of (push_item_ssm cl1 profile_name tag s1 (key, val))).
             \<not> is_check c \<longrightarrow> stored_value c = Some (Str val)
                               \<and> kwarg c ''Type'' = Some (Str (param_type_of key)))
       \<and> (\<forall>c \<in> set (calls_of (push_item_secrets_manager cl2 profile_name tag s2 (key, val))).
             \<not> is_check c \<longrightarrow> stored_value c = Some (Str (secret_string_of key val))
                               \<and> kwarg c ''Type'' = None)
       \<and> secret_string_of key val \<noteq> val"
proof -
  have steps: "step_of (get_parameter a) = Existence_check"
    "step_of (describe_secret a) = Existence_check"
    "step_of (put_parameter_update a v ty) = Update_without_tags"
    "step_of (update_secret a v) = Update_without_tags"
    "step_of (put_parameter_create a v ty ts) = Create_with_tags ts"
    "step_of (create_secret a v ts) = Create_with_tags ts" for a v ty ts
    by (simp_all add: step_of_def is_check_calls kwarg_calls)
  have a: "map step_of (calls_of (push_item_ssm cl1 profile_name tag s1 (key, val)))
           = map step_of (calls_of (push_item_secrets_manager cl2 profile_name tag s2 (key, val)))"
    using assms
    by (auto simp: calls_push_item_ssm calls_push_item_secrets_manager steps existence_def
        split: prod.splits response.splits if_splits)
  have b: "\<forall>c \<in> set (calls_of (push_item_ssm cl1 profile_name tag s1 (key, val))).
             \<not> is_check c \<longrightarrow> stored_value c = Some (Str val)
                               \<and> kwarg c ''Type'' = Some (Str (param_type_of key))"
    using calls_push_item_ssm_cases [of cl1 profile_name tag s1 key val]
    by (auto simp: kwarg_calls is_check_calls stored_value_def)
  have c: "\<forall>c \<in> set (calls_of (push_item_secrets_manager cl2 profile_name tag s2 (key, val))).
             \<not> is_check c \<longrightarrow> stored_value c = Some (Str (secret_string_of key val))
                               \<and> kwarg c ''Type'' = None"
    using calls_push_item_secrets_manager_cases [of cl2 profile_name tag s2 key val]
    by (auto simp: kwarg_calls is_check_calls stored_value_def)
  from a b c secret_string_not_value show ?thesis by blast
qed


theorem variants_witness:
  "existence ''ParameterNotFound'' (fst (sim_sdk [] [] [] (get_parameter (parameter_name_of ''app'' ''A''))))
     = existence ''ResourceNotFoundException''
         (fst (sim_sdk [] [] [] (describe_secret (secret_name_of ''app'' ''A''))))
   \<and> map step_of (calls_of (push_item_ssm (sim_sdk [] []) ''dev'' ''app'' [] (''A'', ''1'')))
     = [Existence_check, Create_with_tags [(''Source'', ''.env''), (''Profile'', ''dev''), (''Tag'', ''app'')]]
   \<and> map step_of (calls_of (push_item_secrets_manager (sim_sdk [] []) ''dev'' ''app'' [] (''A'', ''1'')))
     = [Existence_check, Create_with_tags [(''Source'', ''.env''), (''Profile'', ''dev''), (''Tag'', ''app'')]]"
proof -
  have h: "existence ''ParameterNotFound''
             (fst (sim_sdk [] [] [] (get_parameter (parameter_name_of ''app'' ''A''))))
     = existence ''ResourceNotFoundException''
         (fst (sim_sdk [] [] [] (describe_secret (secret_name_of ''app'' ''A''))))"
    by (simp add: existence_def sim_sdk_def call_target_def kwarg_def get_parameter_def
        describe_secret_def)
  have c: "map step_of (calls_of (push_item_secrets_manager (sim_sdk [] []) ''dev'' ''app'' [] (''A'', ''1'')))
     = [Existence_check, Create_with_tags [(''Source'', ''.env''), (''Profile'', ''dev''), (''Tag'', ''app'')]]"
    by (simp add: calls_push_item_secrets_manager sim_sdk_def call_target_def kwarg_def
        describe_secret_def create_secret_def step_of_def is_check_def tags_of_def)
  from variants_share_steps_not_values
         [of "sim_sdk [] []" "[]" "''app''" "''A''" "sim_sdk [] []" "[]" "''dev''" "''1''", OF h] h c
  show ?thesis by simp
qed

text \<open>
  Claim C4 as stated fails: for the item \<^verbatim>\<open>A=1\<close> the two variants store different
  values, and only one of them sends a classification.
\<close>

theorem variants_store_different_values:
  "stored_value (last (calls_of (push_item_ssm (sim_sdk [] []) ''dev'' ''app'' [] (''A'', ''1''))))
     = Some (Str ''1'')
   \<and> stored_value
         (last (calls_of (push_item_secrets_manager (sim_sdk [] []) ''dev'' ''app'' [] (''A'', ''1''))))
     = Some (Str [CHR ''{'', CHR 0x22, CHR ''A'', CHR 0x22, CHR '':'', CHR '' '', CHR 0x22,
                  CHR ''1'', CHR 0x22, CHR ''}''])
   \<and> kwarg (last (calls_of (push_item_ssm (sim_sdk [] []) ''dev'' ''app'' [] (''A'', ''1''))))
       ''Type'' = Some (Str ''String'')
   \<and> kwarg
         (last (calls_of (push_item_secrets_manager (sim_sdk [] []) ''dev'' ''app'' [] (''A'', ''1''))))
       ''Type'' = None
   \<and> stored_value (last (calls_of (push_item_ssm (sim_sdk [] []) ''dev'' ''app'' [] (''A'', ''1''))))
     \<noteq> stored_value
         (last (calls_of (push_item_secrets_manager (sim_sdk [] []) ''dev'' ''app'' [] (''A'', ''1''))))"
proof -
  have t: "param_type_of ''A'' = ''String''"
    by code_simp
  have a: "calls_of (push_item_ssm (sim_sdk [] []) ''dev'' ''app'' [] (''A'', ''1''))
     = [get_parameter ''/app/A'',
        put_parameter_create ''/app/A'' ''1'' ''String'' (tags_of ''dev'' ''app'')]"
    by (simp add: calls_push_item_ssm t sim_sdk_def call_target_def kwarg_def
        get_parameter_def parameter_name_of_def)
  have b: "calls_of (push_item_secrets_manager (sim_sdk [] []) ''dev'' ''app'' [] (''A'', ''1''))
     = [describe_secret ''app/A'',
        create_secret ''app/A'' (secret_string_of ''A'' ''1'') (tags_of ''dev'' ''app'')]"
    by (simp add: calls_push_item_secrets_manager sim_sdk_def call_target_def kwarg_def
        describe_secret_def secret_name_of_def)
  show ?thesis
    by (simp add: a b stored_value_def kwarg_calls secret_string_of_def)
qed

section \<open>Properties of the secret string\<close>

lemma length_skip_ws: "length (skip_ws s) \<le> length s"
  by (simp add: skip_ws_def length_dropWhile_le)

lemma json_chars_shorter: "json_chars s = Some r \<Longrightarrow> length r < length s"
proof (induction s arbitrary: r rule: json_chars.induct)
  case 1
  then show ?case by simp
next
  case (2 c cs)
  show ?case
  proof (cases "c = CHR 0x22")
    case True
    with "2.prems" show ?thesis by simp
  next
    case q: False
    show ?thesis
    proof (cases "c = CHR 0x5C")
      case True
      show ?thesis
      proof (cases cs)
        case Nil
        with "2.prems" q True show ?thesis by simp
      next
        case (Cons e t)
        show ?thesis
        proof (cases "e \<in> set [CHR 0x22, CHR 0x5C, CHR ''/'', CHR ''b'', CHR ''f'', CHR ''n'',
                             CHR ''r'', CHR ''t'']")
          case e: True
          with "2.prems" q True Cons have "json_chars t = Some r" by simp
          with "2.IH"(1) [OF q True Cons e] have "length r < length t" by simp
          with Cons show ?thesis by simp
        next
          case e: False
          show ?thesis
          proof (cases "e = CHR ''u'' \<and> 4 \<le> length t \<and> list_all is_hex (take 4 t)")
            case u: True
            with "2.prems" q \<open>c = CHR 0x5C\<close> Cons e have "json_chars (drop 4 t) = Some r" by simp
            with "2.IH"(2) [OF q \<open>c = CHR 0x5C\<close> Cons e u] have "length r < length (drop 4 t)" by simp
            with Cons show ?thesis by simp
          next
            case False
            then have "(if e = CHR ''u'' \<and> 4 \<le> length t \<and> list_all is_hex (take 4 t)
                        then json_chars (drop 4 t) else None) = None"
              by (simp only: if_False)
            with "2.prems" q \<open>c = CHR 0x5C\<close> Cons e show ?thesis by simp
          qed
        qed
      qed
    next
      case b: False
      show ?thesis
      proof (cases "(of_char c :: nat) < 32")
        case True
        with "2.prems" q b show ?thesis by simp
      next
        case False
        with "2.prems" q b have "json_chars cs = Some r" by simp
        with "2.IH"(3) [OF q b False] show ?thesis by simp
      qed
    qed
  qed
qed

lemma json_chars_plain: "json_plain k \<Longrightarrow> json_chars (k @ CHR 0x22 # r) = Some r"
  by (induction k) (simp_all add: json_plain_def)


lemma json_digits_shorter: "json_digits s = Some r \<Longrightarrow> length r < length s"
  by (auto simp: json_digits_def le_imp_less_Suc length_dropWhile_le split: list.splits if_splits)

lemma json_number_shorter:
  assumes "json_number s = Some r"
  shows "length r < length s"
proof -
  define s1 where "s1 = (case s of [] \<Rightarrow> [] | c # cs \<Rightarrow> if c = CHR ''-'' then cs else s)"
  have l1: "length s1 \<le> length s"
    by (simp add: s1_def split: list.splits)
  from assms obtain s2 where
    i: "(case s1 of [] \<Rightarrow> None | c # cs \<Rightarrow> if c = CHR ''0'' then Some cs else json_digits s1) = Some s2"
    by (auto simp: json_number_def s1_def [symmetric] Let_def split: option.splits)
  then have l2: "length s2 < length s1"
    by (auto split: list.splits if_splits dest: json_digits_shorter)
  from assms i obtain s3 where
    f: "(case s2 of [] \<Rightarrow> Some s2 | c # cs \<Rightarrow> if c = CHR ''.'' then json_digits cs else Some s2) = Some s3"
    by (auto simp: json_number_def s1_def [symmetric] Let_def split: option.splits)
  then have l3: "length s3 \<le> length s2"
    by (auto split: list.splits if_splits dest: json_digits_shorter)
  from assms i f have
    "(case s3 of
        [] \<Rightarrow> Some s3
      | c # cs \<Rightarrow>
          if c = CHR ''e'' \<or> c = CHR ''E''
          then (case cs of
                  [] \<Rightarrow> None
                | d # ds \<Rightarrow> if d = CHR ''+'' \<or> d = CHR ''-'' then json_digits ds else json_digits cs)
          else Some s3) = Some r"
    by (simp add: json_number_def s1_def [symmetric] Let_def)
  then have "length r \<le> length s3"
    by (auto split: list.splits if_splits dest: json_digits_shorter)
  with l1 l2 l3 show ?thesis by simp
qed

lemma json_parse_shorter: "json_parse p s = Some r \<Longrightarrow> length r < length s"
proof (induction p s arbitrary: r rule: json_parse.induct)
  case (1 s)
  from "1.prems" obtain c cs where s: "s = c # cs"
    by (cases s) auto
  show ?case
  proof (cases "c = CHR ''{''")
    case True
    with "1.prems" s have "json_parse JObject cs = Some r" by simp
    with "1.IH"(1) [OF s True] s show ?thesis by simp
  next
    case o: False
    show ?thesis
    proof (cases "c = CHR ''[''")
      case True
      with "1.prems" s o have "json_parse JArray cs = Some r" by simp
      with "1.IH"(2) [OF s o True] s show ?thesis by simp
    next
      case a: False
      show ?thesis
      proof (cases "c = CHR 0x22")
        case True
        with "1.prems" s o a have "json_chars cs = Some r" by simp
        with json_chars_shorter [of cs r] s show ?thesis by simp
      next
        case q: False
        have w: "length (drop 4 s) < length s" "length (drop 5 s) < length s"
          using s by simp_all
        consider (t) "startswith s ''true''"
          | (f) "\<not> startswith s ''true''" "startswith s ''false''"
          | (n) "\<not> startswith s ''true''" "\<not> startswith s ''false''" "startswith s ''null''"
          | (num) "\<not> startswith s ''true''" "\<not> startswith s ''false''"
              "\<not> startswith s ''null''"
          by blast
        then show ?thesis
        proof cases
          case t
          with "1.prems" s o a q have "r = drop 4 s" by simp
          with w show ?thesis by simp
        next
          case f
          with "1.prems" s o a q have "r = drop 5 s" by simp
          with w show ?thesis by simp
        next
          case n
          with "1.prems" s o a q have "r = drop 4 s" by simp
          with w show ?thesis by simp
        next
          case num
          with "1.prems" s o a q have "json_number s = Some r" by simp
          then show ?thesis by (rule json_number_shorter)
        qed
      qed
    qed
  qed
next
  case (2 s)
  from "2.prems" obtain d t where sk: "skip_ws s = d # t"
    by (auto split: list.splits)
  have "length (d # t) \<le> length s"
    using length_skip_ws [of s] sk by simp
  with 2 sk show ?case
    by (auto split: if_splits)
next
  case (3 s)
  from "3.prems" obtain r1 where v: "json_parse JValue (skip_ws s) = Some r1"
    by (auto split: option.splits)
  with "3.prems" obtain d t where sk: "skip_ws r1 = d # t"
    by (auto split: list.splits)
  have "length r1 < length (skip_ws s)"
    using "3.IH"(1) v by simp
  then have a: "length r1 < length s"
    using length_skip_ws [of s] by simp
  have b: "length (d # t) \<le> length r1"
    using length_skip_ws [of r1] sk by simp
  show ?case
  proof (cases "d = CHR '']''")
    case True
    with "3.prems" v sk a b show ?thesis by simp
  next
    case False
    with "3.prems" v sk have g: "d = CHR '',''" "length t < length s" "json_parse JElements t = Some r"
      by (auto split: if_splits)
    from "3.IH"(2) [OF v sk False] g have "length r < length t" by simp
    with g show ?thesis by simp
  qed
next
  case (4 s)
  from "4.prems" obtain d t where sk: "skip_ws s = d # t"
    by (auto split: list.splits)
  have "length (d # t) \<le> length s"
    using length_skip_ws [of s] sk by simp
  with 4 sk show ?case
    by (auto split: if_splits)
next
  case (5 s)
  from "5.prems" obtain q cs where sk: "skip_ws s = q # cs"
    by (auto split: list.splits)
  with "5.prems" have q: "q = CHR 0x22"
    by (auto split: if_splits)
  with "5.prems" sk obtain r0 where k: "json_chars cs = Some r0"
    by (auto split: option.splits)
  with "5.prems" sk q obtain colon r1 where sk1: "skip_ws r0 = colon # r1"
    by (auto split: list.splits)
  with "5.prems" sk q k have c: "colon = CHR '':'' \<and> length r1 < length s"
    by (auto split: if_splits)
  with "5.prems" sk q k sk1 obtain r2 where v: "json_parse JValue (skip_ws r1) = Some r2"
    by (auto split: option.splits)
  with "5.prems" sk q k sk1 c obtain d r3 where sk2: "skip_ws r2 = d # r3"
    by (auto split: list.splits)
  have "length r2 < length (skip_ws r1)"
    using "5.IH"(1) [OF sk q k sk1 c] v by simp
  then have a: "length r2 < length s"
    using length_skip_ws [of r1] c by simp
  have b: "length (d # r3) \<le> length r2"
    using length_skip_ws [of r2] sk2 by simp
  show ?case
  proof (cases "d = CHR ''}''")
    case True
    with "5.prems" sk q k sk1 c v sk2 a b show ?thesis by simp
  next
    case False
    with "5.prems" sk q k sk1 c v sk2
    have g: "d = CHR '',''" "length r3 < length s" "json_parse JMembers r3 = Some r"
      by (auto split: if_splits)
    from "5.IH"(2) [OF sk q k sk1 c v sk2 False] g have "length r < length r3" by simp
    with g show ?thesis by simp
  qed
qed


lemma skip_ws_start: "\<not> json_ws c \<Longrightarrow> skip_ws (c # cs) = c # cs"
  by (simp add: skip_ws_def)

lemma json_ws_chars:
  "\<not> json_ws (CHR ''{'')" "\<not> json_ws (CHR ''}'')" "\<not> json_ws (CHR 0x22)" "\<not> json_ws (CHR '':'')"
  "json_ws (CHR '' '')"
  by (simp_all add: json_ws_def)

lemma skip_ws_space: "skip_ws (CHR '' '' # cs) = skip_ws cs"
  by (simp add: skip_ws_def json_ws_def)

lemma plain_template_is_json:
  assumes "json_plain key" and "json_plain val"
  shows "valid_json (secret_string_of key val)"
proof -
  let ?tail = "[CHR 0x22, CHR ''}'']"
  let ?mid = "CHR '':'' # CHR '' '' # CHR 0x22 # val @ ?tail"
  have k: "json_chars (key @ CHR 0x22 # ?mid) = Some ?mid"
    using assms(1) by (rule json_chars_plain)
  have v: "json_chars (val @ CHR 0x22 # [CHR ''}'']) = Some [CHR ''}'']"
    using assms(2) by (rule json_chars_plain)
  have inner: "json_parse JValue (CHR 0x22 # val @ ?tail) = Some [CHR ''}'']"
    using v by simp
  have members: "json_parse JMembers (CHR 0x22 # key @ CHR 0x22 # ?mid) = Some []"
    using k inner
    by (simp add: skip_ws_start skip_ws_space json_ws_chars)
  have "json_parse JValue (CHR ''{'' # CHR 0x22 # key @ CHR 0x22 # ?mid) = Some []"
    using members by (simp add: skip_ws_start json_ws_chars)
  then show ?thesis
    by (simp add: valid_json_def secret_string_of_def skip_ws_start json_ws_chars skip_ws_def)
qed

lemma lone_quote_breaks_json:
  assumes "json_plain key"
  shows "\<not> valid_json (secret_string_of key [CHR 0x22])"
proof -
  let ?mid = "CHR '':'' # CHR '' '' # CHR 0x22 # [CHR 0x22, CHR 0x22, CHR ''}'']"
  have k: "json_chars (key @ CHR 0x22 # ?mid) = Some ?mid"
    using assms by (rule json_chars_plain)
  have members: "json_parse JMembers (CHR 0x22 # key @ CHR 0x22 # ?mid) = None"
    using k by (simp add: skip_ws_start skip_ws_space json_ws_chars)
  have "json_parse JValue (CHR ''{'' # CHR 0x22 # key @ CHR 0x22 # ?mid) = None"
    using members by (simp add: skip_ws_start json_ws_chars)
  then show ?thesis
    by (simp add: valid_json_def secret_string_of_def skip_ws_start json_ws_chars)
qed

lemma lone_backslash_breaks_json:
  assumes "json_plain key"
  shows "\<not> valid_json (secret_string_of key [CHR 0x5C])"
proof -
  let ?mid = "CHR '':'' # CHR '' '' # CHR 0x22 # [CHR 0x5C, CHR 0x22, CHR ''}'']"
  have k: "json_chars (key @ CHR 0x22 # ?mid) = Some ?mid"
    using assms by (rule json_chars_plain)
  have members: "json_parse JMembers (CHR 0x22 # key @ CHR 0x22 # ?mid) = None"
    using k by (simp add: skip_ws_start skip_ws_space json_ws_chars)
  have "json_parse JValue (CHR ''{'' # CHR 0x22 # key @ CHR 0x22 # ?mid) = None"
    using members by (simp add: skip_ws_start json_ws_chars)
  then show ?thesis
    by (simp add: valid_json_def secret_string_of_def skip_ws_start json_ws_chars)
qed

text \<open>
  Claim C10, amended. For every key and value the Secrets Manager variant stores, in its
  update as in its create, the template \<^verbatim>\<open>{"<key>": "<value>"}\<close> filled in with no
  escaping, which is never the value itself. The stored string is valid JSON when neither
  key nor value has a double quote, a backslash or a control character. With such a key,
  the value that is one double quote and the value that is one backslash give a string
  that is not valid JSON.
\<close>

theorem secret_string_is_unescaped_template:
  "(\<forall>c \<in> set (calls_of (push_item_secrets_manager cl profile_name tag s (key, val))).
      \<not> is_check c \<longrightarrow> stored_value c = Some (Str (secret_string_of key val)))
   \<and> secret_string_of key val
       = [CHR ''{'', CHR 0x22] @ key @ [CHR 0x22, CHR '':'', CHR '' '', CHR 0x22] @ val
           @ [CHR 0x22, CHR ''}'']
   \<and> secret_string_of key val \<noteq> val
   \<and> (json_plain key \<and> json_plain val \<longrightarrow> valid_json (secret_string_of key val))
   \<and> (json_plain key \<longrightarrow> \<not> valid_json (secret_string_of key [CHR 0x22])
                          \<and> \<not> valid_json (secret_string_of key [CHR 0x5C]))"
proof -
  have a: "\<forall>c \<in> set (calls_of (push_item_secrets_manager cl profile_name tag s (key, val))).
      \<not> is_check c \<longrightarrow> stored_value c = Some (Str (secret_string_of key val))"
    using calls_push_item_secrets_manager_cases [of cl profile_name tag s key val]
    by (auto simp: kwarg_calls is_check_calls stored_value_def)
  have b: "secret_string_of key val
       = [CHR ''{'', CHR 0x22] @ key @ [CHR 0x22, CHR '':'', CHR '' '', CHR 0x22] @ val
           @ [CHR 0x22, CHR ''}'']"
    by (simp add: secret_string_of_def)
  from a b secret_string_not_value plain_template_is_json lone_quote_breaks_json
    lone_backslash_breaks_json
  show ?thesis by blast
qed

theorem secret_string_witness:
  "json_plain ''DB_HOST'' \<and> json_plain ''db.local''
   \<and> valid_json (secret_string_of ''DB_HOST'' ''db.local'')
   \<and> \<not> valid_json (secret_string_of ''DB_HOST'' [CHR 0x22])
   \<and> \<not> valid_json (secret_string_of ''DB_HOST'' [CHR 0x5C])
   \<and> calls_of (push_item_secrets_manager (sim_sdk [] []) ''dev'' ''app'' [] (''DB_HOST'', ''db.local''))
     = [describe_secret ''app/DB_HOST'',
        create_secret ''app/DB_HOST'' (secret_string_of ''DB_HOST'' ''db.local'')
          (tags_of ''dev'' ''app'')]
   \<and> stored_value (create_secret ''app/DB_HOST'' (secret_string_of ''DB_HOST'' ''db.local'')
                     (tags_of ''dev'' ''app''))
     = Some (Str (secret_string_of ''DB_HOST'' ''db.local''))"
proof -
  have k: "json_plain ''DB_HOST''"
    by code_simp
  have v: "json_plain ''db.local''"
    by code_simp
  have c: "calls_of (push_item_secrets_manager (sim_sdk [] []) ''dev'' ''app'' [] (''DB_HOST'', ''db.local''))
     = [describe_secret ''app/DB_HOST'',
        create_secret ''app/DB_HOST'' (secret_string_of ''DB_HOST'' ''db.local'')
          (tags_of ''dev'' ''app'')]"
    by (simp add: calls_push_item_secrets_manager sim_sdk_def call_target_def kwarg_def
        describe_secret_def secret_name_of_def)
  have g: "valid_json (secret_string_of ''DB_HOST'' ''db.local'')
      \<and> \<not> valid_json (secret_string_of ''DB_HOST'' [CHR 0x22])
      \<and> \<not> valid_json (secret_string_of ''DB_HOST'' [CHR 0x5C])"
    using secret_string_is_unescaped_template
      [of "sim_sdk [] []" "''dev''" "''app''" "[]" "''DB_HOST''" "''db.local''"] k v
    by blast
  have w: "stored_value (create_secret ''app/DB_HOST'' (secret_string_of ''DB_HOST'' ''db.local'')
                     (tags_of ''dev'' ''app''))
     = Some (Str (secret_string_of ''DB_HOST'' ''db.local''))"
    by (simp add: stored_value_def kwarg_calls)
  from k v g c w show ?thesis by blast
qed

text \<open>
  Claim C10 as stated fails: a value with a backslash in it (two backslashes) and a value
  with double quotes in it (\<^verbatim>\<open>x", "y": "z\<close>) both give a stored string that is valid
  JSON.
\<close>

theorem quotes_and_backslashes_can_give_valid_json:
  "CHR 0x5C \<in> set [CHR 0x5C, CHR 0x5C]
   \<and> valid_json (secret_string_of ''K'' [CHR 0x5C, CHR 0x5C])
   \<and> CHR 0x22 \<in> set [CHR ''x'', CHR 0x22, CHR '','', CHR '' '', CHR 0x22, CHR ''y'', CHR 0x22,
                        CHR '':'', CHR '' '', CHR 0x22, CHR ''z'']
   \<and> valid_json (secret_string_of ''K''
         [CHR ''x'', CHR 0x22, CHR '','', CHR '' '', CHR 0x22, CHR ''y'', CHR 0x22, CHR '':'', CHR '' '',
          CHR 0x22, CHR ''z''])"
proof -
  have a: "valid_json (secret_string_of ''K'' [CHR 0x5C, CHR 0x5C])"
    by code_simp
  have b: "valid_json (secret_string_of ''K''
         [CHR ''x'', CHR 0x22, CHR '','', CHR '' '', CHR 0x22, CHR ''y'', CHR 0x22, CHR '':'', CHR '' '',
          CHR 0x22, CHR ''z''])"
    by code_simp
  from a b show ?thesis by simp
qed

end
